theory Spec2Isabelle
  imports Main
begin

section \<open>Text primitives of Python used by the script\<close>

text \<open>
  A Python \<^verbatim>\<open>str\<close> is modelled as a \<^typ>\<open>string\<close>, one \<^typ>\<open>char\<close> per code
  point below 256 (git summary lines and e-mail addresses are ASCII in practice). On
  that range \<^verbatim>\<open>str.isspace\<close>, which decides both \<^verbatim>\<open>str.strip()\<close> and the regular
  expression class \<^verbatim>\<open>\s\<close>, holds of exactly the twelve characters below, and
  \<^verbatim>\<open>\d\<close> holds of the ten ASCII digits.
\<close>

definition nl :: char where
  "nl = CHR 0x0A"

definition isspace :: "char \<Rightarrow> bool" where
  "isspace c = (c \<in> set [CHR 0x09, CHR 0x0A, CHR 0x0B, CHR 0x0C, CHR 0x0D,
                          CHR 0x1C, CHR 0x1D, CHR 0x1E, CHR 0x1F, CHR 0x20,
                          CHR 0x85, CHR 0xA0])"

definition isdigit :: "char \<Rightarrow> bool" where
  "isdigit c = (c \<in> set ''0123456789'')"

text \<open>The class \<^verbatim>\<open>[a-z0-9]\<close> of the revision group.\<close>

definition lower_digit :: "char \<Rightarrow> bool" where
  "lower_digit c = (c \<in> set ''abcdefghijklmnopqrstuvwxyz0123456789'')"

text \<open>The class \<^verbatim>\<open>[a-zA-Z0-9\-\.\_]\<close> of the reviewer group.\<close>

definition reviewer_char :: "char \<Rightarrow> bool" where
  "reviewer_char c =
     (c \<in> set ''abcdefghijklmnopqrstuvwxyzABCDEFGHIJKLMNOPQRSTUVWXYZ0123456789-._'')"

text \<open>\<^verbatim>\<open>s.strip()\<close>, \<^verbatim>\<open>s.strip(chars)\<close> and \<^verbatim>\<open>s.rstrip(chars)\<close>.\<close>

definition strip :: "string \<Rightarrow> string" where
  "strip s = rev (dropWhile isspace (rev (dropWhile isspace s)))"

definition strip_chars :: "string \<Rightarrow> string \<Rightarrow> string" where
  "strip_chars cs s =
     rev (dropWhile (\<lambda>c. c \<in> set cs) (rev (dropWhile (\<lambda>c. c \<in> set cs) s)))"

definition rstrip_chars :: "string \<Rightarrow> string \<Rightarrow> string" where
  "rstrip_chars cs s = rev (dropWhile (\<lambda>c. c \<in> set cs) (rev s))"

text \<open>\<^verbatim>\<open>s.split(sep)\<close> for a separator of one character: never the empty list.\<close>

fun split_on :: "char \<Rightarrow> string \<Rightarrow> string list" where
  "split_on sep [] = [[]]"
| "split_on sep (c # cs) =
     (if c = sep then [] # split_on sep cs
      else (case split_on sep cs of
              [] \<Rightarrow> [[c]]
            | p # ps \<Rightarrow> (c # p) # ps))"

text \<open>\<^verbatim>\<open>str(n)\<close> of an integer, as the f-strings of the report format it.\<close>

fun digits :: "nat \<Rightarrow> string" where
  "digits n =
     (if n < 10 then [char_of (48 + n)]
      else digits (n div 10) @ [char_of (48 + n mod 10)])"

definition str_int :: "int \<Rightarrow> string" where
  "str_int i = (if i < 0 then CHR ''-'' # digits (nat (- i)) else digits (nat i))"

section \<open>Regular-expression pieces\<close>

text \<open>
  A run of pattern text without operators, matched at the head of the subject: every
  pattern character stands for itself, except the dot, which the \<^verbatim>\<open>re\<close> module
  reads as "any character but a newline". The result is the unmatched rest.
\<close>

fun re_lit :: "string \<Rightarrow> string \<Rightarrow> string option" where
  "re_lit [] s = Some s"
| "re_lit (p # ps) [] = None"
| "re_lit (p # ps) (c # cs) =
     (if (if p = CHR ''.'' then c \<noteq> nl else c = p) then re_lit ps cs else None)"

text \<open>
  \<^verbatim>\<open>$\<close> without the MULTILINE flag: the end of the subject, or the position of a
  newline that is its last character.
\<close>

definition re_end :: "string \<Rightarrow> bool" where
  "re_end s = (s = [] \<or> s = [nl])"

text \<open>
  \<^verbatim>\<open>(?P<g>.*)$\<close>: the greedy dot run stops at the first newline or at the end, and a
  shorter run stops before a character that is not a newline, where \<^verbatim>\<open>$\<close> fails; so
  the longest run decides.
\<close>

definition re_dotstar_end :: "string \<Rightarrow> string option" where
  "re_dotstar_end s =
     (if re_end (dropWhile (\<lambda>c. c \<noteq> nl) s) then Some (takeWhile (\<lambda>c. c \<noteq> nl) s)
      else None)"

text \<open>
  An alternation of literals followed by the rest \<open>k\<close> of the pattern: the alternatives
  are tried from the left and the first one after which the rest matches wins.
\<close>

definition re_alt :: "string list \<Rightarrow> (string \<Rightarrow> bool) \<Rightarrow> string \<Rightarrow> bool" where
  "re_alt alts k s =
     list_ex (\<lambda>a. case re_lit a s of None \<Rightarrow> False | Some r \<Rightarrow> k r) alts"

section \<open>The patterns of the first loop\<close>

definition backoutRE :: "string list" where
  "backoutRE = [''Revert'', ''Backed out'', ''Back out'', ''back out'',
                ''Backout'', ''backout'', ''BACKOUT'', ''Backing out'']"

definition mergeRE :: "string list" where
  "mergeRE = [''Merge'', ''merge'']"

text \<open>
  \<^verbatim>\<open>^(?P<revision>[a-z0-9]+) (backoutRE|mergeRE) \<close> with \<^verbatim>\<open>match\<close>. The revision is
  the longest run of the class: a shorter run is followed by a class character, which
  is not the space the pattern wants next.
\<close>

definition backoutMergePattern_match :: "string \<Rightarrow> bool" where
  "backoutMergePattern_match line =
     (takeWhile lower_digit line \<noteq> [] \<and>
      (case re_lit '' '' (dropWhile lower_digit line) of
         None \<Rightarrow> False
       | Some r \<Rightarrow> re_alt (backoutRE @ mergeRE) (\<lambda>t. re_lit '' '' t \<noteq> None) r))"

text \<open>
  \<^verbatim>\<open>^(?P<revision>[a-z0-9]+)\s+(Fix for )?(Bug|bug) (?P<bugno>\d+)\<close> with
  \<^verbatim>\<open>match\<close>; the result is the pair of the groups revision and bugno. Both runs before
  the word are the longest ones (what follows a shorter run is a character of the run's
  own class, not what the pattern wants next), and skipping a present \<^verbatim>\<open>Fix for \<close>
  leaves an \<^verbatim>\<open>F\<close> where \<^verbatim>\<open>B\<close> or \<^verbatim>\<open>b\<close> is wanted.
\<close>

definition bugPattern_match :: "string \<Rightarrow> (string \<times> string) option" where
  "bugPattern_match line =
     (let revision = takeWhile lower_digit line;
          r1 = dropWhile lower_digit line;
          r2 = dropWhile isspace r1;
          r3 = (case re_lit ''Fix for '' r2 of None \<Rightarrow> r2 | Some r \<Rightarrow> r)
      in if revision = [] \<or> takeWhile isspace r1 = [] then None
         else (case (case re_lit ''Bug'' r3 of None \<Rightarrow> re_lit ''bug'' r3 | Some r \<Rightarrow> Some r) of
                 None \<Rightarrow> None
               | Some r4 \<Rightarrow>
                   (case re_lit '' '' r4 of
                      None \<Rightarrow> None
                    | Some r5 \<Rightarrow>
                        if takeWhile isdigit r5 = [] then None
                        else Some (revision, takeWhile isdigit r5))))"

text \<open>
  \<^verbatim>\<open>^(?P<revision>[a-z0-9]+) (?P<summary>.*)$\<close> with \<^verbatim>\<open>match\<close>; the result is the
  pair of the groups revision and summary.
\<close>

definition unrecognizedPattern_match :: "string \<Rightarrow> (string \<times> string) option" where
  "unrecognizedPattern_match line =
     (if takeWhile lower_digit line = [] then None
      else (case re_lit '' '' (dropWhile lower_digit line) of
              None \<Rightarrow> None
            | Some r \<Rightarrow>
                (case re_dotstar_end r of
                   None \<Rightarrow> None
                 | Some summary \<Rightarrow> Some (takeWhile lower_digit line, summary))))"

section \<open>Parsing the reviewers\<close>

text \<open>
  \<^verbatim>\<open>^(r=|sr=)?(?P<reviewer>[a-zA-Z0-9\-\.\_]+)$\<close> with \<^verbatim>\<open>match\<close>; the result is
  the group reviewer. Where a prefix is present, skipping it leaves an \<^verbatim>\<open>=\<close> inside
  the subject, which the class does not contain, so taking the prefix decides.
\<close>

definition reviewerPattern_match :: "string \<Rightarrow> string option" where
  "reviewerPattern_match r =
     (let t = (case re_lit ''r='' r of
                 Some u \<Rightarrow> u
               | None \<Rightarrow> (case re_lit ''sr='' r of Some u \<Rightarrow> u | None \<Rightarrow> r))
      in if takeWhile reviewer_char t \<noteq> [] \<and> re_end (dropWhile reviewer_char t)
         then Some (takeWhile reviewer_char t) else None)"

definition webIDLPeersRE :: "string list" where
  "webIDLPeersRE =
     [''asuth'', ''baku'', ''bent'', ''bholley'', ''billm'', ''bkelly'', ''bz'', ''bzbarsky'',
      ''echen'', ''edgar'', ''ehsan'', ''emilio'', ''farre'', ''hsivonen'', ''jst'', ''khuey'',
      ''mccr8'', ''mounir'', ''mrbkap'', ''nika'', ''Nika'', ''peterv'', ''qdot'', ''saschanaz'',
      ''sefeng'', ''sicking'', ''smaug'', ''tschuster'']"

text \<open>\<^verbatim>\<open>^(webIDLPeersRE)$\<close> with \<^verbatim>\<open>match\<close>.\<close>

definition webIDLPeersPattern_match :: "string \<Rightarrow> bool" where
  "webIDLPeersPattern_match r = re_alt webIDLPeersRE re_end r"

text \<open>
  The first half of the body of the loop of \<^verbatim>\<open>parseReviewers\<close> (lines 120 to 130):
  the name that is looked up in the peer list, or \<open>None\<close> where the body returns
  \<^verbatim>\<open>"BAD_PARSE"\<close>.
\<close>

definition reviewerName :: "string \<Rightarrow> string option" where
  "reviewerName r0 =
     (let r = rstrip_chars '' .])'' (strip_chars '' '' r0)
      in case reviewerPattern_match r of
           Some reviewer \<Rightarrow> Some reviewer
         | None \<Rightarrow> if r = ''emilio DONTBUILD'' then Some ''emilio'' else None)"

fun parseReviewers_loop :: "string list \<Rightarrow> string" where
  "parseReviewers_loop [] = ''MISSING''"
| "parseReviewers_loop (r0 # rs) =
     (case reviewerName r0 of
        None \<Rightarrow> ''BAD_PARSE''
      | Some r \<Rightarrow> if webIDLPeersPattern_match r then ''OK'' else parseReviewers_loop rs)"

definition parseReviewers :: "string \<Rightarrow> string" where
  "parseReviewers rString = parseReviewers_loop (split_on (CHR '','') rString)"

text \<open>
  \<^verbatim>\<open>r\=(?P<reviewer>.*)$\<close> with \<^verbatim>\<open>search\<close>: the leftmost position at which the
  pattern matches; the result is the group reviewer.
\<close>

fun rEqualPattern_search :: "string \<Rightarrow> string option" where
  "rEqualPattern_search [] = None"
| "rEqualPattern_search (c # cs) =
     (case (case re_lit ''r='' (c # cs) of None \<Rightarrow> None | Some t \<Rightarrow> re_dotstar_end t) of
        Some reviewer \<Rightarrow> Some reviewer
      | None \<Rightarrow> rEqualPattern_search cs)"

definition webIDLPeersEmailRE :: "string list" where
  "webIDLPeersEmailRE = [''emilio@crisal.io'', ''sefeng@mozilla.com'']"

text \<open>\<^verbatim>\<open>^(webIDLPeersEmailRE)$\<close> with \<^verbatim>\<open>match\<close>; the dots of the addresses are pattern dots.\<close>

definition webIDLPeersEmailPattern_match :: "string \<Rightarrow> bool" where
  "webIDLPeersEmailPattern_match author = re_alt webIDLPeersEmailRE re_end author"

section \<open>The repository, the clock and the state of the script\<close>

text \<open>
  What \<^verbatim>\<open>git show --no-patch\<close> prints for a revision: the committer date of format
  \<^verbatim>\<open>%cI\<close>, already read by \<^verbatim>\<open>datetime.fromisoformat\<close> as an instant (microseconds
  since the epoch), the committer e-mail of format \<^verbatim>\<open>%ce\<close> and the author e-mail of
  format \<^verbatim>\<open>%ae\<close>, both as printed. The script asks for the first two only. A revision
  that git does not resolve has no entry: \<^verbatim>\<open>check_output\<close> raises there.
\<close>

record commit =
  cI :: int
  ce :: string
  ae :: string

record world =
  currentDate :: int
  gitRepo :: "string \<Rightarrow> commit option"

datatype gitFormat = Fmt_cI | Fmt_ce

datatype exn = AttributeError | CalledProcessError

datatype abort = SystemExit int | Uncaught exn

text \<open>
  The module-level variables, the two output streams as the text written to them by the
  script itself (the traceback that the interpreter prints for an uncaught exception is
  not part of \<open>stderr\<close>), and the log of the \<^verbatim>\<open>git show\<close> commands run so far.
\<close>

record state =
  bugs :: "(string \<times> string \<times> string) list"
  numReverts :: int
  numOldUnrecognized :: int
  numHasPeer :: int
  numOldMissing :: int
  numOldReviewerless :: int
  numOldUnparsableReviewers :: int
  numPeerAuthored :: int
  bugsMissingReview :: "(string \<times> string \<times> string) list"
  numKnownMissing :: int
  numUnknownMissing :: int
  stdout :: string
  stderr :: string
  gitCalls :: "(gitFormat \<times> string) list"

definition initial :: state where
  "initial = \<lparr>bugs = [], numReverts = 0, numOldUnrecognized = 0, numHasPeer = 0,
     numOldMissing = 0, numOldReviewerless = 0, numOldUnparsableReviewers = 0,
     numPeerAuthored = 0, bugsMissingReview = [], numKnownMissing = 0,
     numUnknownMissing = 0, stdout = [], stderr = [], gitCalls = []\<rparr>"

definition revisionDate :: "world \<Rightarrow> string \<Rightarrow> state \<Rightarrow> (abort \<times> state) + (int \<times> state)" where
  "revisionDate w revision st =
     (let st' = st\<lparr>gitCalls := gitCalls st @ [(Fmt_cI, revision)]\<rparr>
      in case gitRepo w revision of
           None \<Rightarrow> Inl (Uncaught CalledProcessError, st')
         | Some c \<Rightarrow> Inr (cI c, st'))"

definition revisionAuthor :: "world \<Rightarrow> string \<Rightarrow> state \<Rightarrow> (abort \<times> state) + (string \<times> state)" where
  "revisionAuthor w revision st =
     (let st' = st\<lparr>gitCalls := gitCalls st @ [(Fmt_ce, revision)]\<rparr>
      in case gitRepo w revision of
           None \<Rightarrow> Inl (Uncaught CalledProcessError, st')
         | Some c \<Rightarrow> Inr (strip (ce c), st'))"

text \<open>\<^verbatim>\<open>timedelta(days=d)\<close> in microseconds.\<close>

definition timedelta_days :: "int \<Rightarrow> int" where
  "timedelta_days d = d * 86400000000"

definition numOldYears :: int where
  "numOldYears = 3"

definition dateIsOld :: "world \<Rightarrow> int \<Rightarrow> bool" where
  "dateIsOld w previousDate =
     (currentDate w - previousDate \<ge> timedelta_days (numOldYears * 365))"

section \<open>The three loops and the report\<close>

text \<open>
  A loop over a list whose body either goes on with a new state or leaves the script:
  \<open>Inl\<close> carries how the script ended and the state it ended in.
\<close>

fun forEach :: "('a \<Rightarrow> state \<Rightarrow> (abort \<times> state) + state) \<Rightarrow> 'a list \<Rightarrow> state
                \<Rightarrow> (abort \<times> state) + state" where
  "forEach body [] st = Inr st"
| "forEach body (x # xs) st =
     (case body x st of
        Inl e \<Rightarrow> Inl e
      | Inr st' \<Rightarrow> forEach body xs st')"

text \<open>
  The body of the loop over the lines of the log file (lines 80 to 102). In the last
  branch \<^verbatim>\<open>match\<close> is \<^verbatim>\<open>None\<close>, so building the message raises before anything is
  written.
\<close>

definition classifyStep :: "world \<Rightarrow> string \<Rightarrow> state \<Rightarrow> (abort \<times> state) + state" where
  "classifyStep w rawline st =
     (let line = strip rawline
      in case bugPattern_match line of
           Some (revision, bugno) \<Rightarrow> Inr (st\<lparr>bugs := bugs st @ [(revision, bugno, line)]\<rparr>)
         | None \<Rightarrow>
             if backoutMergePattern_match line
             then Inr (st\<lparr>numReverts := numReverts st + 1\<rparr>)
             else (case unrecognizedPattern_match line of
                     Some (revision, summary) \<Rightarrow>
                       (case revisionDate w revision st of
                          Inl e \<Rightarrow> Inl e
                        | Inr (d, st') \<Rightarrow>
                            if dateIsOld w d
                            then Inr (st'\<lparr>numOldUnrecognized := numOldUnrecognized st' + 1\<rparr>)
                            else Inl (SystemExit (- 1),
                                      st'\<lparr>stderr := stderr st' @
                                         ''Error: non-old unrecognized line: '' @ summary @ [nl]\<rparr>))
                   | None \<Rightarrow> Inl (Uncaught AttributeError, st)))"

text \<open>The body of the loop over \<^verbatim>\<open>bugs\<close> (lines 147 to 179).\<close>

definition reviewStep :: "world \<Rightarrow> string \<times> string \<times> string \<Rightarrow> state
                          \<Rightarrow> (abort \<times> state) + state" where
  "reviewStep w b st =
     (case b of (revision, bugnumber, line) \<Rightarrow>
        (case rEqualPattern_search line of
           Some rString \<Rightarrow>
             (let reviewers = parseReviewers rString
              in if reviewers = ''OK'' then Inr (st\<lparr>numHasPeer := numHasPeer st + 1\<rparr>)
                 else if reviewers = ''BAD_PARSE'' then
                   (case revisionDate w revision st of
                      Inl e \<Rightarrow> Inl e
                    | Inr (d, st') \<Rightarrow>
                        if dateIsOld w d
                        then Inr (st'\<lparr>numOldUnparsableReviewers :=
                                         numOldUnparsableReviewers st' + 1\<rparr>)
                        else Inl (SystemExit (- 1),
                                  st'\<lparr>stderr := stderr st' @
                                     ''Error: couldn'' @ [CHR 0x27] @
                                     ''t parse reviewers for non-old bug: '' @ line @ [nl]\<rparr>))
                 else if reviewers = ''MISSING'' then
                   (case revisionDate w revision st of
                      Inl e \<Rightarrow> Inl e
                    | Inr (d, st') \<Rightarrow>
                        if dateIsOld w d
                        then Inr (st'\<lparr>numOldMissing := numOldMissing st' + 1\<rparr>)
                        else Inr (st'\<lparr>bugsMissingReview :=
                                         bugsMissingReview st' @ [(revision, bugnumber, line)]\<rparr>))
                 else Inl (SystemExit (- 1),
                           st\<lparr>stderr := stderr st @
                              ''Error: unexpected parseReviewers return value '' @ reviewers @
                              '': '' @ line @ [nl]\<rparr>))
         | None \<Rightarrow>
             (case revisionDate w revision st of
                Inl e \<Rightarrow> Inl e
              | Inr (d, st') \<Rightarrow>
                  if dateIsOld w d
                  then Inr (st'\<lparr>numOldReviewerless := numOldReviewerless st' + 1\<rparr>)
                  else if bugnumber = ''1968400''
                  then Inr (st'\<lparr>numPeerAuthored := numPeerAuthored st' + 1\<rparr>)
                  else Inl (SystemExit (- 1),
                            st'\<lparr>stderr := stderr st' @
                               ''Error: non-old bug without reviewer string: '' @ line @ [nl]\<rparr>))))"

text \<open>The body of the loop over \<^verbatim>\<open>bugsMissingReview\<close> (lines 203 to 223).\<close>

definition authorStep :: "world \<Rightarrow> string \<times> string \<times> string \<Rightarrow> state
                          \<Rightarrow> (abort \<times> state) + state" where
  "authorStep w b st =
     (case b of (revision, bugnumber, line) \<Rightarrow>
        (case revisionAuthor w revision st of
           Inl e \<Rightarrow> Inl e
         | Inr (author, st') \<Rightarrow>
             if webIDLPeersEmailPattern_match author
             then Inr (st'\<lparr>numPeerAuthored := numPeerAuthored st' + 1\<rparr>)
             else if bugnumber = ''1966190''
             then Inr (st'\<lparr>numKnownMissing := numKnownMissing st' + 1\<rparr>)
             else if bugnumber = ''1979610''
             then Inr (st'\<lparr>numKnownMissing := numKnownMissing st' + 1\<rparr>)
             else Inr (st'\<lparr>numUnknownMissing := numUnknownMissing st' + 1,
                            stderr := stderr st' @
                              ''MISSING WebIDL review for bug '' @ bugnumber @ '': '' @ line\<rparr>)))"

text \<open>The ten \<^verbatim>\<open>print\<close> calls of lines 229 to 239, each ending its line.\<close>

definition report :: "state \<Rightarrow> string" where
  "report st =
     ''Patches with WebIDL peer review: '' @ str_int (numHasPeer st) @ [nl] @
     ''Patches missing WebIDL peer review, known issue: '' @ str_int (numKnownMissing st) @ [nl] @
     ''Patches missing WebIDL peer review, but authored by peer: '' @
        str_int (numPeerAuthored st) @ [nl] @
     ''Old patches missing WebIDL peer review: '' @ str_int (numOldMissing st) @ [nl] @
     ''Old patches without parsable reviewer strings: '' @
        str_int (numOldUnparsableReviewers st) @ [nl] @
     ''Old patches without reviewer strings: '' @ str_int (numOldReviewerless st) @ [nl] @
     [nl] @
     ''Patches that are backouts: '' @ str_int (numReverts st) @ [nl] @
     ''Old unrecognized summaries: '' @ str_int (numOldUnrecognized st) @ [nl] @
     [nl] @
     ''(Old means more than '' @ str_int numOldYears @ '' years old.)'' @ [nl]"

text \<open>Lines 225 to 239: \<open>None\<close> is running off the end of the script.\<close>

definition finish :: "state \<Rightarrow> abort option \<times> state" where
  "finish st =
     (if numUnknownMissing st > 0
      then (Some (SystemExit (- 1)),
            st\<lparr>stderr := stderr st @
               ''!!! Unknown non-old patches missing WebIDL review !!!''\<rparr>)
      else (None, st\<lparr>stdout := stdout st @ report st\<rparr>))"

text \<open>
  The loops in the order of the script: the first two, then the third over the patches
  the second has left without peer review. The input is the list of the lines that
  iterating over the file yields.
\<close>

definition firstTwoLoops :: "world \<Rightarrow> string list \<Rightarrow> (abort \<times> state) + state" where
  "firstTwoLoops w lines =
     (case forEach (classifyStep w) lines initial of
        Inl e \<Rightarrow> Inl e
      | Inr st1 \<Rightarrow> forEach (reviewStep w) (bugs st1) st1)"

definition loops :: "world \<Rightarrow> string list \<Rightarrow> (abort \<times> state) + state" where
  "loops w lines =
     (case firstTwoLoops w lines of
        Inl e \<Rightarrow> Inl e
      | Inr st2 \<Rightarrow> forEach (authorStep w) (bugsMissingReview st2) (st2\<lparr>bugs := []\<rparr>))"

definition program :: "world \<Rightarrow> string list \<Rightarrow> abort option \<times> state" where
  "program w lines =
     (case loops w lines of
        Inl (a, st) \<Rightarrow> (Some a, st)
      | Inr st \<Rightarrow> finish st)"

text \<open>
  The exit status of the process: \<^verbatim>\<open>exit(n)\<close> gives the low eight bits of \<open>n\<close>, an
  uncaught exception gives 1, the end of the script gives 0.
\<close>

fun exitStatus :: "abort option \<Rightarrow> int" where
  "exitStatus None = 0"
| "exitStatus (Some (SystemExit n)) = n mod 256"
| "exitStatus (Some (Uncaught e)) = 1"

section \<open>Vocabulary of the properties\<close>

text \<open>The state a loop or a body stops in, however it stops.\<close>

definition endState :: "(abort \<times> state) + state \<Rightarrow> state" where
  "endState r = (case r of Inl (a, st) \<Rightarrow> st | Inr st \<Rightarrow> st)"

text \<open>
  The four classes of the specification for a stripped line, tried in its order: bug fix
  with number, backout or merge, unrecognized but old, error.
\<close>

datatype lineClass = BugFix | BackoutMerge | UnrecognizedOld | LineError

definition spec_lineClass :: "world \<Rightarrow> string \<Rightarrow> lineClass" where
  "spec_lineClass w line =
     (if bugPattern_match line \<noteq> None then BugFix
      else if backoutMergePattern_match line then BackoutMerge
      else if (case unrecognizedPattern_match line of
                 None \<Rightarrow> False
               | Some (revision, summary) \<Rightarrow>
                   (case gitRepo w revision of
                      None \<Rightarrow> False
                    | Some c \<Rightarrow> dateIsOld w (cI c)))
      then UnrecognizedOld
      else LineError)"

text \<open>The entries of \<^verbatim>\<open>bugs\<close> that the lines of a log give rise to, in their order.\<close>

definition bugEntries :: "string list \<Rightarrow> (string \<times> string \<times> string) list" where
  "bugEntries lines =
     concat (map (\<lambda>raw. case bugPattern_match (strip raw) of
                           None \<Rightarrow> []
                         | Some (revision, bugno) \<Rightarrow> [(revision, bugno, strip raw)]) lines)"

text \<open>
  A patch reaches the secondary stage: its line has a reviewer annotation that parses as
  missing a peer, and its commit is known and not old.
\<close>

definition reachesSecondary :: "world \<Rightarrow> string \<times> string \<times> string \<Rightarrow> bool" where
  "reachesSecondary w b =
     (case b of (revision, bugnumber, line) \<Rightarrow>
        (case rEqualPattern_search line of
           None \<Rightarrow> False
         | Some rString \<Rightarrow>
             parseReviewers rString = ''MISSING'' \<and>
             (case gitRepo w revision of
                None \<Rightarrow> False
              | Some c \<Rightarrow> \<not> dateIsOld w (cI c))))"

text \<open>
  What the third loop tests, in the terms of the code: the e-mail that
  \<^verbatim>\<open>revisionAuthor\<close> returns for the patch, which is the committer e-mail, matches the
  e-mail pattern.
\<close>

definition committerMatches :: "world \<Rightarrow> string \<times> string \<times> string \<Rightarrow> bool" where
  "committerMatches w b =
     (case gitRepo w (fst b) of
        None \<Rightarrow> False
      | Some c \<Rightarrow> webIDLPeersEmailPattern_match (strip (ce c)))"

text \<open>
  The test in the words of the specification: the e-mail of the commit author is one of
  the addresses of the peer e-mail list.
\<close>

definition spec_authorOnAllowList :: "world \<Rightarrow> string \<times> string \<times> string \<Rightarrow> bool" where
  "spec_authorOnAllowList w b =
     (case gitRepo w (fst b) of
        None \<Rightarrow> False
      | Some c \<Rightarrow> ae c \<in> set webIDLPeersEmailRE)"

text \<open>
  An element of the reviewer annotation parses as a reviewer name: stripped of spaces
  and then of trailing characters of \<^verbatim>\<open> .])\<close>, it is a name, nonempty and of letters,
  digits, \<^verbatim>\<open>-\<close>, \<^verbatim>\<open>.\<close> and \<^verbatim>\<open>_\<close> only, after an optional \<^verbatim>\<open>r=\<close> or \<^verbatim>\<open>sr=\<close>; or it is
  \<^verbatim>\<open>emilio DONTBUILD\<close>, which names emilio.
\<close>

definition spec_reviewerName :: "string \<Rightarrow> string \<Rightarrow> bool" where
  "spec_reviewerName element name =
     (let r = rstrip_chars '' .])'' (strip_chars '' '' element)
      in (r = ''emilio DONTBUILD'' \<and> name = ''emilio'') \<or>
         (name \<noteq> [] \<and> (\<forall>c\<in>set name. reviewer_char c) \<and>
          (r = name \<or> r = ''r='' @ name \<or> r = ''sr='' @ name)))"

text \<open>The number that a string of decimal digits denotes.\<close>

definition decimal_value :: "string \<Rightarrow> int" where
  "decimal_value s = foldl (\<lambda>a c. 10 * a + (int (of_char c) - 48)) 0 s"

text \<open>No counter is negative.\<close>

definition countersNonneg :: "state \<Rightarrow> bool" where
  "countersNonneg st \<longleftrightarrow>
     0 \<le> numReverts st \<and> 0 \<le> numOldUnrecognized st \<and> 0 \<le> numHasPeer st \<and>
     0 \<le> numOldMissing st \<and> 0 \<le> numOldReviewerless st \<and>
     0 \<le> numOldUnparsableReviewers st \<and> 0 \<le> numPeerAuthored st \<and>
     0 \<le> numKnownMissing st \<and> 0 \<le> numUnknownMissing st"


text \<open>
  A small repository and clock for concrete runs: the clock stands at day 20000, commit
  \<open>aaa\<close> is one day old, \<open>bbb\<close> ten days, \<open>edge\<close> exactly 1095 days and \<open>old\<close> 2000 days.
  Commit \<open>ccc\<close> was written by a peer of the e-mail list and committed by someone else;
  commit \<open>ddd\<close> was written and committed under an address that is not on the list.
\<close>

definition example_world :: world where
  "example_world =
     \<lparr>currentDate = timedelta_days 20000,
      gitRepo = [''aaa'' \<mapsto> \<lparr>cI = timedelta_days 19999, ce = ''dev@example.org'',
                            ae = ''dev@example.org''\<rparr>,
                 ''bbb'' \<mapsto> \<lparr>cI = timedelta_days 19990, ce = ''emilio@crisal.io'',
                            ae = ''emilio@crisal.io''\<rparr>,
                 ''edge'' \<mapsto> \<lparr>cI = timedelta_days 18905, ce = ''dev@example.org'',
                            ae = ''dev@example.org''\<rparr>,
                 ''old'' \<mapsto> \<lparr>cI = timedelta_days 18000, ce = ''dev@example.org'',
                            ae = ''dev@example.org''\<rparr>,
                 ''ccc'' \<mapsto> \<lparr>cI = timedelta_days 19998, ce = ''dev@example.org'',
                            ae = ''emilio@crisal.io''\<rparr>,
                 ''ddd'' \<mapsto> \<lparr>cI = timedelta_days 19997, ce = ''sefeng@mozilla-com'',
                            ae = ''sefeng@mozilla-com''\<rparr>]\<rparr>"

text \<open>Two logs over that repository: one with an unresolved violation, one without.\<close>

definition example_log_violation :: "string list" where
  "example_log_violation = [''aaa Bug 7 - y r=foo'' @ [nl]]"

definition example_log_clean :: "string list" where
  "example_log_clean =
     [''aaa Bug 1968400 - x'' @ [nl], ''old Backed out changeset 12'' @ [nl],
      ''bbb Bug 12 - y r=smaug'' @ [nl]]"

text \<open>A log whose patches without peer review end in each of the three ways.\<close>

definition example_log_secondary :: "string list" where
  "example_log_secondary =
     [''aaa Bug 7 - y r=foo'' @ [nl], ''bbb Bug 8 - y r=foo'' @ [nl],
      ''aaa Bug 1966190 - y r=foo'' @ [nl], ''aaa Bug 1979610 - z r=foo'' @ [nl],
      ''bbb Bug 12 - y r=smaug'' @ [nl], ''old Bug 9 - z r=foo'' @ [nl]]"

definition example_pending :: "(string \<times> string \<times> string) list" where
  "example_pending =
     [(''aaa'', ''7'', ''aaa Bug 7 - y r=foo''), (''bbb'', ''8'', ''bbb Bug 8 - y r=foo''),
      (''aaa'', ''1966190'', ''aaa Bug 1966190 - y r=foo''),
      (''aaa'', ''1979610'', ''aaa Bug 1979610 - z r=foo'')]"

text \<open>
  Two logs of one patch without peer review each: the first written by a peer and
  committed by someone else, the second committed under an address with a hyphen where
  a listed address has a dot.
\<close>

definition example_log_peer_author :: "string list" where
  "example_log_peer_author = [''ccc Bug 7 - y r=foo'' @ [nl]]"

definition example_log_unlisted :: "string list" where
  "example_log_unlisted = [''ddd Bug 8 - y r=foo'' @ [nl]]"

text \<open>A log with two unresolved violations, and one that ends in the second loop.\<close>

definition example_log_two_violations :: "string list" where
  "example_log_two_violations = [''aaa Bug 7 - y r=foo'' @ [nl], ''aaa Bug 8 - w r=bar'' @ [nl]]"

definition example_log_aborted :: "string list" where
  "example_log_aborted = [''aaa Bug 7 - y r=foo'' @ [nl], ''aaa Bug 5 - x'' @ [nl]]"

section \<open>Loops: what a body guarantees, the loop guarantees\<close>

lemma forEach_count:
  assumes step: "\<And>x s s'. body x s = Inr s' \<Longrightarrow> f s' = f s + (if P x then 1 else 0)"
  shows "forEach body xs st = Inr st' \<Longrightarrow> f st' = f st + int (length (filter P xs))"
proof (induction xs arbitrary: st)
  case Nil
  then show ?case by simp
next
  case (Cons x xs)
  then obtain s where s: "body x st = Inr s" and r: "forEach body xs s = Inr st'"
    by (auto split: sum.splits)
  from Cons.IH [OF r] step [OF s] show ?case by simp
qed

lemma forEach_collect:
  assumes step: "\<And>x s s'. body x s = Inr s' \<Longrightarrow> g s' = g s @ h x"
  shows "forEach body xs st = Inr st' \<Longrightarrow> g st' = g st @ concat (map h xs)"
proof (induction xs arbitrary: st)
  case Nil
  then show ?case by simp
next
  case (Cons x xs)
  then obtain s where s: "body x st = Inr s" and r: "forEach body xs s = Inr st'"
    by (auto split: sum.splits)
  from Cons.IH [OF r] step [OF s] show ?case by simp
qed

lemma forEach_keeps:
  assumes step: "\<And>x s. I s \<Longrightarrow> I (endState (body x s))"
  shows "I st \<Longrightarrow> I (endState (forEach body xs st))"
proof (induction xs arbitrary: st)
  case Nil
  then show ?case by (simp add: endState_def)
next
  case (Cons x xs)
  show ?case
  proof (cases "body x st")
    case (Inl e)
    with step [OF Cons.prems, of x] show ?thesis by simp
  next
    case (Inr s)
    with step [OF Cons.prems, of x] have "I s" by (simp add: endState_def)
    from Cons.IH [OF this] Inr show ?thesis by simp
  qed
qed

lemma forEach_all:
  assumes step: "\<And>x s s'. body x s = Inr s' \<Longrightarrow> Q x"
  shows "forEach body xs st = Inr st' \<Longrightarrow> \<forall>x\<in>set xs. Q x"
proof (induction xs arbitrary: st)
  case Nil
  then show ?case by simp
next
  case (Cons x xs)
  then obtain s where s: "body x st = Inr s" and r: "forEach body xs s = Inr st'"
    by (auto split: sum.splits)
  from Cons.IH [OF r] step [OF s] show ?case by simp
qed

lemma forEach_total:
  assumes step: "\<And>x s. Q x \<Longrightarrow> \<exists>s'. body x s = Inr s'"
  shows "\<forall>x\<in>set xs. Q x \<Longrightarrow> \<exists>st'. forEach body xs st = Inr st'"
proof (induction xs arbitrary: st)
  case Nil
  then show ?case by simp
next
  case (Cons x xs)
  then have "Q x" by simp
  from step [OF this] obtain s where "body x st = Inr s" by blast
  moreover from Cons have "\<exists>st'. forEach body xs s = Inr st'" by simp
  ultimately show ?case by simp
qed

lemma concat_filter: "concat (map (\<lambda>x. if P x then [x] else []) xs) = filter P xs"
  by (induction xs) simp_all

lemmas step_defs = classifyStep_def reviewStep_def authorStep_def revisionDate_def
  revisionAuthor_def endState_def Let_def

lemma loops_cases:
  assumes "loops w lines = Inr st"
  obtains s1 s2 where
    "forEach (classifyStep w) lines initial = Inr s1" and
    "forEach (reviewStep w) (bugs s1) s1 = Inr s2" and
    "firstTwoLoops w lines = Inr s2" and
    "forEach (authorStep w) (bugsMissingReview s2) (s2\<lparr>bugs := []\<rparr>) = Inr st"
  using assms by (auto simp: loops_def firstTwoLoops_def split: sum.splits)

subsection \<open>Nothing is printed before the report\<close>

lemma classifyStep_stdout: "stdout (endState (classifyStep w l s)) = stdout s"
  by (simp add: step_defs split: option.splits sum.splits prod.splits)

lemma reviewStep_stdout: "stdout (endState (reviewStep w b s)) = stdout s"
  by (simp add: step_defs split: option.splits sum.splits prod.splits)

lemma authorStep_stdout: "stdout (endState (authorStep w b s)) = stdout s"
  by (simp add: step_defs split: option.splits sum.splits prod.splits)

lemma loops_stdout:
  assumes "loops w lines = Inr st"
  shows "stdout st = []"
proof -
  from assms obtain s1 s2 where
    1: "forEach (classifyStep w) lines initial = Inr s1" and
    2: "forEach (reviewStep w) (bugs s1) s1 = Inr s2" and
    3: "forEach (authorStep w) (bugsMissingReview s2) (s2\<lparr>bugs := []\<rparr>) = Inr st"
    by (rule loops_cases)
  have "stdout (endState (forEach (classifyStep w) lines initial)) = []"
    by (rule forEach_keeps [where I = "\<lambda>s. stdout s = []"])
       (simp_all add: classifyStep_stdout initial_def)
  with 1 have "stdout s1 = []" by (simp add: endState_def)
  then have "stdout (endState (forEach (reviewStep w) (bugs s1) s1)) = []"
    by (rule forEach_keeps [where I = "\<lambda>s. stdout s = []", rotated])
       (simp add: reviewStep_stdout)
  with 2 have "stdout (s2\<lparr>bugs := []\<rparr>) = []" by (simp add: endState_def)
  then have "stdout (endState (forEach (authorStep w) (bugsMissingReview s2)
                                 (s2\<lparr>bugs := []\<rparr>))) = []"
    by (rule forEach_keeps [where I = "\<lambda>s. stdout s = []", rotated])
       (simp add: authorStep_stdout)
  with 3 show ?thesis by (simp add: endState_def)
qed

subsection \<open>Two concrete runs\<close>

lemma example_violation_run:
  "loops example_world example_log_violation =
     Inr (initial\<lparr>bugsMissingReview := [(''aaa'', ''7'', ''aaa Bug 7 - y r=foo'')],
                  numUnknownMissing := 1,
                  stderr := ''MISSING WebIDL review for bug 7: aaa Bug 7 - y r=foo'',
                  gitCalls := [(Fmt_cI, ''aaa''), (Fmt_ce, ''aaa'')]\<rparr>)"
  by code_simp

lemma example_clean_run:
  "loops example_world example_log_clean =
     Inr (initial\<lparr>numReverts := 1, numHasPeer := 1, numPeerAuthored := 1,
                  gitCalls := [(Fmt_cI, ''aaa'')]\<rparr>)"
  by code_simp

section \<open>The age of a commit\<close>

text \<open>
  C10. A date is old exactly when the clock of the run, read once into \<open>currentDate\<close>,
  is at least 1095 days past it. Each of the four places that exempt a commit for its
  age decides by this test on the commit's date: the unrecognized line of the first
  loop, and in the second loop the unparsable reviewers, the missing peer and the line
  without reviewers. In each, the exempting step is taken exactly when the commit is at
  least 1095 days old.
\<close>

theorem old_threshold_everywhere:
  "(dateIsOld w d \<longleftrightarrow> currentDate w - d \<ge> timedelta_days 1095) \<and>
   (gitRepo w revision = Some c \<longrightarrow>
      (bugPattern_match (strip raw) = None \<and> \<not> backoutMergePattern_match (strip raw) \<and>
       unrecognizedPattern_match (strip raw) = Some (revision, summary) \<longrightarrow>
         (classifyStep w raw st =
            Inr (st\<lparr>numOldUnrecognized := numOldUnrecognized st + 1,
                    gitCalls := gitCalls st @ [(Fmt_cI, revision)]\<rparr>)
          \<longleftrightarrow> currentDate w - cI c \<ge> timedelta_days 1095)) \<and>
      (rEqualPattern_search line = Some rString \<and> parseReviewers rString = ''BAD_PARSE'' \<longrightarrow>
         (reviewStep w (revision, bugnumber, line) st =
            Inr (st\<lparr>numOldUnparsableReviewers := numOldUnparsableReviewers st + 1,
                    gitCalls := gitCalls st @ [(Fmt_cI, revision)]\<rparr>)
          \<longleftrightarrow> currentDate w - cI c \<ge> timedelta_days 1095)) \<and>
      (rEqualPattern_search line = Some rString \<and> parseReviewers rString = ''MISSING'' \<longrightarrow>
         (reviewStep w (revision, bugnumber, line) st =
            Inr (st\<lparr>numOldMissing := numOldMissing st + 1,
                    gitCalls := gitCalls st @ [(Fmt_cI, revision)]\<rparr>)
          \<longleftrightarrow> currentDate w - cI c \<ge> timedelta_days 1095)) \<and>
      (rEqualPattern_search line = None \<longrightarrow>
         (reviewStep w (revision, bugnumber, line) st =
            Inr (st\<lparr>numOldReviewerless := numOldReviewerless st + 1,
                    gitCalls := gitCalls st @ [(Fmt_cI, revision)]\<rparr>)
          \<longleftrightarrow> currentDate w - cI c \<ge> timedelta_days 1095)))"
  by (cases st) (simp add: step_defs dateIsOld_def numOldYears_def)

theorem old_threshold_everywhere_witness:
  "dateIsOld example_world (timedelta_days 18905) \<and>
   \<not> dateIsOld example_world (timedelta_days 18905 + 1) \<and>
   classifyStep example_world ''edge some thing'' initial =
     Inr (initial\<lparr>numOldUnrecognized := 1, gitCalls := [(Fmt_cI, ''edge'')]\<rparr>) \<and>
   reviewStep example_world (''edge'', ''5'', ''edge Bug 5 - z r=foo bar'') initial =
     Inr (initial\<lparr>numOldUnparsableReviewers := 1, gitCalls := [(Fmt_cI, ''edge'')]\<rparr>) \<and>
   reviewStep example_world (''edge'', ''5'', ''edge Bug 5 - z r=foo'') initial =
     Inr (initial\<lparr>numOldMissing := 1, gitCalls := [(Fmt_cI, ''edge'')]\<rparr>) \<and>
   reviewStep example_world (''edge'', ''5'', ''edge Bug 5 - z'') initial =
     Inr (initial\<lparr>numOldReviewerless := 1, gitCalls := [(Fmt_cI, ''edge'')]\<rparr>)"
proof -
  let ?c = "\<lparr>cI = timedelta_days 18905, ce = ''dev@example.org'', ae = ''dev@example.org''\<rparr>"
  have repo: "gitRepo example_world ''edge'' = Some ?c"
    by (simp add: example_world_def)
  have age: "currentDate example_world - cI ?c \<ge> timedelta_days 1095"
    by (simp add: example_world_def timedelta_days_def)
  have young: "\<not> currentDate example_world - (timedelta_days 18905 + 1) \<ge> timedelta_days 1095"
    by (simp add: example_world_def timedelta_days_def)
  have l1: "bugPattern_match (strip ''edge some thing'') = None"
    "\<not> backoutMergePattern_match (strip ''edge some thing'')"
    "unrecognizedPattern_match (strip ''edge some thing'') = Some (''edge'', ''some thing'')"
    by code_simp+
  have l2: "rEqualPattern_search ''edge Bug 5 - z r=foo bar'' = Some ''foo bar''"
    "parseReviewers ''foo bar'' = ''BAD_PARSE''"
    by code_simp+
  have l3: "rEqualPattern_search ''edge Bug 5 - z r=foo'' = Some ''foo''"
    "parseReviewers ''foo'' = ''MISSING''"
    by code_simp+
  have l4: "rEqualPattern_search ''edge Bug 5 - z'' = None"
    by code_simp
  note t = old_threshold_everywhere [where w = example_world and revision = "''edge''"
      and c = ?c and st = initial and bugnumber = "''5''"]
  from t [where d = "timedelta_days 18905"] age
  have a: "dateIsOld example_world (timedelta_days 18905)" by simp
  from t [where d = "timedelta_days 18905 + 1"] young
  have b: "\<not> dateIsOld example_world (timedelta_days 18905 + 1)" by simp
  from t [where raw = "''edge some thing''" and summary = "''some thing''"] repo age l1
  have c: "classifyStep example_world ''edge some thing'' initial =
     Inr (initial\<lparr>numOldUnrecognized := 1, gitCalls := [(Fmt_cI, ''edge'')]\<rparr>)"
    by (simp add: initial_def)
  from t [where line = "''edge Bug 5 - z r=foo bar''" and rString = "''foo bar''"] repo age l2
  have d: "reviewStep example_world (''edge'', ''5'', ''edge Bug 5 - z r=foo bar'') initial =
     Inr (initial\<lparr>numOldUnparsableReviewers := 1, gitCalls := [(Fmt_cI, ''edge'')]\<rparr>)"
    by (simp add: initial_def)
  from t [where line = "''edge Bug 5 - z r=foo''" and rString = "''foo''"] repo age l3
  have e: "reviewStep example_world (''edge'', ''5'', ''edge Bug 5 - z r=foo'') initial =
     Inr (initial\<lparr>numOldMissing := 1, gitCalls := [(Fmt_cI, ''edge'')]\<rparr>)"
    by (simp add: initial_def)
  from t [where line = "''edge Bug 5 - z''"] repo age l4
  have f: "reviewStep example_world (''edge'', ''5'', ''edge Bug 5 - z'') initial =
     Inr (initial\<lparr>numOldReviewerless := 1, gitCalls := [(Fmt_cI, ''edge'')]\<rparr>)"
    by (simp add: initial_def)
  from a b c d e f show ?thesis by blast
qed

section \<open>The first loop: classifying the lines\<close>

lemma classifyStep_bugs:
  "classifyStep w raw s = Inr s' \<Longrightarrow>
   bugs s' = bugs s @ (case bugPattern_match (strip raw) of
                         None \<Rightarrow> []
                       | Some (revision, bugno) \<Rightarrow> [(revision, bugno, strip raw)])"
  by (auto simp: step_defs split: option.splits if_splits)

lemma classifyStep_numReverts:
  "classifyStep w raw s = Inr s' \<Longrightarrow>
   numReverts s' = numReverts s + (if spec_lineClass w (strip raw) = BackoutMerge then 1 else 0)"
  by (auto simp: step_defs spec_lineClass_def split: option.splits if_splits)

lemma classifyStep_numOldUnrecognized:
  "classifyStep w raw s = Inr s' \<Longrightarrow>
   numOldUnrecognized s' =
     numOldUnrecognized s + (if spec_lineClass w (strip raw) = UnrecognizedOld then 1 else 0)"
  by (auto simp: step_defs spec_lineClass_def split: option.splits if_splits)

lemma classifyStep_no_error:
  "classifyStep w raw s = Inr s' \<Longrightarrow> spec_lineClass w (strip raw) \<noteq> LineError"
  by (auto simp: step_defs spec_lineClass_def split: option.splits if_splits)

lemma classifyLoop_bugs:
  "forEach (classifyStep w) lines st = Inr st' \<Longrightarrow> bugs st' = bugs st @ bugEntries lines"
  unfolding bugEntries_def by (rule forEach_collect [where g = bugs]) (rule classifyStep_bugs)

lemma length_bugEntries:
  "length (bugEntries lines) =
   length (filter (\<lambda>raw. bugPattern_match (strip raw) \<noteq> None) lines)"
  by (induction lines) (auto simp: bugEntries_def split: option.splits)

lemma spec_lineClass_BugFix:
  "(spec_lineClass w line = BugFix) = (bugPattern_match line \<noteq> None)"
  by (auto simp: spec_lineClass_def)

text \<open>
  C4. A line is a bug fix exactly when the bug pattern matches it, whatever the later
  patterns say, and then its revision, bug number and stripped text are appended to
  \<open>bugs\<close>. A backout or merge adds one to \<open>numReverts\<close>, an unrecognized old line adds
  one to \<open>numOldUnrecognized\<close> after its date has been looked up, and a line of the
  remaining class ends the script with a status that is not zero. When the loop runs to
  its end, the lines have been divided among the first three classes and none is of
  the fourth.
\<close>

theorem classify_four_outcomes:
  "(spec_lineClass w (strip raw) = BugFix \<longleftrightarrow> bugPattern_match (strip raw) \<noteq> None) \<and>
   (bugPattern_match (strip raw) = Some (revision, bugno) \<longrightarrow>
      classifyStep w raw st = Inr (st\<lparr>bugs := bugs st @ [(revision, bugno, strip raw)]\<rparr>)) \<and>
   (spec_lineClass w (strip raw) = BackoutMerge \<longrightarrow>
      classifyStep w raw st = Inr (st\<lparr>numReverts := numReverts st + 1\<rparr>)) \<and>
   (spec_lineClass w (strip raw) = UnrecognizedOld \<longrightarrow>
      (\<exists>revision summary. unrecognizedPattern_match (strip raw) = Some (revision, summary) \<and>
         classifyStep w raw st =
           Inr (st\<lparr>numOldUnrecognized := numOldUnrecognized st + 1,
                   gitCalls := gitCalls st @ [(Fmt_cI, revision)]\<rparr>))) \<and>
   (spec_lineClass w (strip raw) = LineError \<longrightarrow>
      (\<exists>a st'. classifyStep w raw st = Inl (a, st') \<and> exitStatus (Some a) \<noteq> 0)) \<and>
   (forEach (classifyStep w) lines st = Inr st1 \<longrightarrow>
      bugs st1 = bugs st @ bugEntries lines \<and>
      length (bugEntries lines) =
        length (filter (\<lambda>raw. spec_lineClass w (strip raw) = BugFix) lines) \<and>
      numReverts st1 = numReverts st +
        int (length (filter (\<lambda>raw. spec_lineClass w (strip raw) = BackoutMerge) lines)) \<and>
      numOldUnrecognized st1 = numOldUnrecognized st +
        int (length (filter (\<lambda>raw. spec_lineClass w (strip raw) = UnrecognizedOld) lines)) \<and>
      (\<forall>raw\<in>set lines. spec_lineClass w (strip raw) \<noteq> LineError))"
proof (intro conjI impI)
  show "(spec_lineClass w (strip raw) = BugFix) = (bugPattern_match (strip raw) \<noteq> None)"
    by (rule spec_lineClass_BugFix)
next
  assume "bugPattern_match (strip raw) = Some (revision, bugno)"
  then show "classifyStep w raw st = Inr (st\<lparr>bugs := bugs st @ [(revision, bugno, strip raw)]\<rparr>)"
    by (simp add: step_defs)
next
  assume "spec_lineClass w (strip raw) = BackoutMerge"
  then show "classifyStep w raw st = Inr (st\<lparr>numReverts := numReverts st + 1\<rparr>)"
    by (auto simp: spec_lineClass_def step_defs split: option.splits if_splits)
next
  assume "spec_lineClass w (strip raw) = UnrecognizedOld"
  then show "\<exists>revision summary. unrecognizedPattern_match (strip raw) = Some (revision, summary) \<and>
         classifyStep w raw st =
           Inr (st\<lparr>numOldUnrecognized := numOldUnrecognized st + 1,
                   gitCalls := gitCalls st @ [(Fmt_cI, revision)]\<rparr>)"
    by (auto simp: spec_lineClass_def step_defs split: option.splits if_splits)
next
  assume "spec_lineClass w (strip raw) = LineError"
  then show "\<exists>a st'. classifyStep w raw st = Inl (a, st') \<and> exitStatus (Some a) \<noteq> 0"
    by (auto simp: spec_lineClass_def step_defs split: option.splits if_splits)
next
  assume run: "forEach (classifyStep w) lines st = Inr st1"
  then show "bugs st1 = bugs st @ bugEntries lines"
    by (rule classifyLoop_bugs)
  show "length (bugEntries lines) =
        length (filter (\<lambda>raw. spec_lineClass w (strip raw) = BugFix) lines)"
    by (simp add: length_bugEntries spec_lineClass_BugFix)
  from run show "numReverts st1 = numReverts st +
        int (length (filter (\<lambda>raw. spec_lineClass w (strip raw) = BackoutMerge) lines))"
    by (rule forEach_count [where f = numReverts, rotated]) (rule classifyStep_numReverts)
  from run show "numOldUnrecognized st1 = numOldUnrecognized st +
        int (length (filter (\<lambda>raw. spec_lineClass w (strip raw) = UnrecognizedOld) lines))"
    by (rule forEach_count [where f = numOldUnrecognized, rotated])
       (rule classifyStep_numOldUnrecognized)
  from run show "\<forall>raw\<in>set lines. spec_lineClass w (strip raw) \<noteq> LineError"
    by (rule forEach_all [rotated]) (rule classifyStep_no_error)
qed

theorem classify_four_outcomes_witness:
  "unrecognizedPattern_match (strip ''aaa Bug 7 - y r=foo'') \<noteq> None \<and>
   spec_lineClass example_world (strip ''aaa Bug 7 - y r=foo'') = BugFix \<and>
   classifyStep example_world ''aaa Bug 7 - y r=foo'' initial =
     Inr (initial\<lparr>bugs := [(''aaa'', ''7'', ''aaa Bug 7 - y r=foo'')]\<rparr>) \<and>
   classifyStep example_world ''old Backed out changeset 12'' initial =
     Inr (initial\<lparr>numReverts := 1\<rparr>) \<and>
   classifyStep example_world ''old some thing'' initial =
     Inr (initial\<lparr>numOldUnrecognized := 1, gitCalls := [(Fmt_cI, ''old'')]\<rparr>) \<and>
   (\<exists>a st'. classifyStep example_world ''aaa some thing'' initial = Inl (a, st') \<and>
      exitStatus (Some a) \<noteq> 0) \<and>
   length (filter (\<lambda>raw. spec_lineClass example_world (strip raw) = BackoutMerge)
             example_log_clean) = 1 \<and>
   length (filter (\<lambda>raw. spec_lineClass example_world (strip raw) = BugFix)
             example_log_clean) = 2"
proof -
  have u: "unrecognizedPattern_match (strip ''aaa Bug 7 - y r=foo'') \<noteq> None"
    by code_simp
  have b: "bugPattern_match (strip ''aaa Bug 7 - y r=foo'') = Some (''aaa'', ''7'')"
    and s: "strip ''aaa Bug 7 - y r=foo'' = ''aaa Bug 7 - y r=foo''"
    by code_simp+
  have c2: "spec_lineClass example_world (strip ''old Backed out changeset 12'') = BackoutMerge"
    by code_simp
  have c3: "spec_lineClass example_world (strip ''old some thing'') = UnrecognizedOld"
    and u3: "unrecognizedPattern_match (strip ''old some thing'') = Some (''old'', ''some thing'')"
    by code_simp+
  have c4: "spec_lineClass example_world (strip ''aaa some thing'') = LineError"
    by code_simp
  have run: "forEach (classifyStep example_world) example_log_clean initial =
    Inr (initial\<lparr>bugs := [(''aaa'', ''1968400'', ''aaa Bug 1968400 - x''),
                            (''bbb'', ''12'', ''bbb Bug 12 - y r=smaug'')],
                  numReverts := 1\<rparr>)"
    by code_simp
  have entries: "bugEntries example_log_clean =
     [(''aaa'', ''1968400'', ''aaa Bug 1968400 - x''), (''bbb'', ''12'', ''bbb Bug 12 - y r=smaug'')]"
    by code_simp
  note t = classify_four_outcomes [where w = example_world and st = initial]
  from t [where raw = "''aaa Bug 7 - y r=foo''" and revision = "''aaa''" and bugno = "''7''"] b s
  have 1: "spec_lineClass example_world (strip ''aaa Bug 7 - y r=foo'') = BugFix"
    "classifyStep example_world ''aaa Bug 7 - y r=foo'' initial =
     Inr (initial\<lparr>bugs := [(''aaa'', ''7'', ''aaa Bug 7 - y r=foo'')]\<rparr>)"
    by (simp_all add: initial_def)
  from t [where raw = "''old Backed out changeset 12''"] c2
  have 2: "classifyStep example_world ''old Backed out changeset 12'' initial =
     Inr (initial\<lparr>numReverts := 1\<rparr>)"
    by (simp add: initial_def)
  from t [where raw = "''old some thing''"] c3 u3
  have 3: "classifyStep example_world ''old some thing'' initial =
     Inr (initial\<lparr>numOldUnrecognized := 1, gitCalls := [(Fmt_cI, ''old'')]\<rparr>)"
    by (auto simp: initial_def)
  from t [where raw = "''aaa some thing''"] c4
  have 4: "\<exists>a st'. classifyStep example_world ''aaa some thing'' initial = Inl (a, st') \<and>
      exitStatus (Some a) \<noteq> 0"
    by blast
  from t [where raw = "[]" and lines = example_log_clean and
      ?st1.0 = "initial\<lparr>bugs := [(''aaa'', ''1968400'', ''aaa Bug 1968400 - x''),
                            (''bbb'', ''12'', ''bbb Bug 12 - y r=smaug'')],
                  numReverts := 1\<rparr>"] run
  have "length (bugEntries example_log_clean) =
        length (filter (\<lambda>raw. spec_lineClass example_world (strip raw) = BugFix)
                  example_log_clean) \<and>
      numReverts (initial\<lparr>bugs := [(''aaa'', ''1968400'', ''aaa Bug 1968400 - x''),
                            (''bbb'', ''12'', ''bbb Bug 12 - y r=smaug'')],
                  numReverts := 1\<rparr>) = numReverts initial +
        int (length (filter (\<lambda>raw. spec_lineClass example_world (strip raw) = BackoutMerge)
                       example_log_clean))"
    by blast
  with entries
  have 5: "length (filter (\<lambda>raw. spec_lineClass example_world (strip raw) = BackoutMerge)
             example_log_clean) = 1"
   "length (filter (\<lambda>raw. spec_lineClass example_world (strip raw) = BugFix)
             example_log_clean) = 2"
    by (simp_all add: initial_def)
  from u 1 2 3 4 5 show ?thesis by blast
qed

text \<open>
  The last branch of the loop body: it is reached with a match that is \<open>None\<close>, and
  formatting the message raises before anything is written.
\<close>

lemma hashless_line_raises:
  "bugPattern_match (strip raw) = None \<Longrightarrow> \<not> backoutMergePattern_match (strip raw) \<Longrightarrow>
   unrecognizedPattern_match (strip raw) = None \<Longrightarrow>
   classifyStep w raw st = Inl (Uncaught AttributeError, st)"
  by (simp add: step_defs)

text \<open>
  C5. A line that none of the three patterns matches does not get its message. Run on a
  log whose one line holds only a hash, and on a log whose one line is empty, the script
  ends in an uncaught \<open>AttributeError\<close>, with status 1, and has itself written nothing
  to the error stream.
\<close>

theorem hashless_line_uncaught:
  "program example_world [''abc1234'' @ [nl]] = (Some (Uncaught AttributeError), initial) \<and>
   program example_world [[nl]] = (Some (Uncaught AttributeError), initial) \<and>
   stderr initial = [] \<and>
   exitStatus (Some (Uncaught AttributeError)) = 1"
  by code_simp

section \<open>Every bug-fix line ends in one counter\<close>








section \<open>The second loop: lines without reviewers\<close>

lemma re_lit_literal:
  "CHR ''.'' \<notin> set p \<Longrightarrow> re_lit p s = Some t \<longleftrightarrow> s = p @ t"
  by (induction p s rule: re_lit.induct) auto

lemma re_lit_rEqual: "re_lit ''r='' s = Some t \<longleftrightarrow> s = ''r='' @ t"
  by (rule re_lit_literal) simp

lemma re_dotstar_end_line: "nl \<notin> set s \<Longrightarrow> re_dotstar_end s = Some s"
proof -
  assume "nl \<notin> set s"
  then have "takeWhile (\<lambda>c. c \<noteq> nl) s = s" and "dropWhile (\<lambda>c. c \<noteq> nl) s = []"
    by (auto intro: takeWhile_eq_all_conv [THEN iffD2])
  then show ?thesis by (simp add: re_dotstar_end_def re_end_def)
qed

lemma rEqualPattern_search_None:
  "nl \<notin> set line \<Longrightarrow>
   rEqualPattern_search line = None \<longleftrightarrow> \<not> (\<exists>pre post. line = pre @ ''r='' @ post)"
proof (induction line)
  case Nil
  then show ?case by simp
next
  case (Cons c cs)
  have here: "(\<exists>t. re_lit ''r='' (c # cs) = Some t \<and> re_dotstar_end t \<noteq> None) \<longleftrightarrow>
      (\<exists>post. c # cs = ''r='' @ post)"
  proof
    assume "\<exists>t. re_lit ''r='' (c # cs) = Some t \<and> re_dotstar_end t \<noteq> None"
    then show "\<exists>post. c # cs = ''r='' @ post" unfolding re_lit_rEqual by blast
  next
    assume "\<exists>post. c # cs = ''r='' @ post"
    then obtain post where p: "c # cs = ''r='' @ post" by blast
    with Cons.prems have "nl \<notin> set post" by auto
    then have "re_dotstar_end post = Some post" by (rule re_dotstar_end_line)
    moreover from p have "re_lit ''r='' (c # cs) = Some post" unfolding re_lit_rEqual .
    ultimately show "\<exists>t. re_lit ''r='' (c # cs) = Some t \<and> re_dotstar_end t \<noteq> None" by simp
  qed
  have split: "(\<exists>pre post. c # cs = pre @ ''r='' @ post) \<longleftrightarrow>
      (\<exists>post. c # cs = ''r='' @ post) \<or> (\<exists>pre post. cs = pre @ ''r='' @ post)"
    by (auto simp: Cons_eq_append_conv)
  from Cons have ih: "rEqualPattern_search cs = None \<longleftrightarrow> \<not> (\<exists>pre post. cs = pre @ ''r='' @ post)"
    by simp
  have step: "rEqualPattern_search (c # cs) = None \<longleftrightarrow>
      \<not> (\<exists>t. re_lit ''r='' (c # cs) = Some t \<and> re_dotstar_end t \<noteq> None) \<and>
      rEqualPattern_search cs = None"
    by (auto split: option.splits)
  show ?case by (simp only: step here split ih de_Morgan_disj)
qed

text \<open>
  C9, as the code has it. Take a bug-fix line without a newline (a stripped line of a
  text file has none) and without the text \<^verbatim>\<open>r=\<close>, whose commit is known and not old. The second loop first asks git for the
  commit date, and that is its only lookup for the line: no e-mail is asked for. Then,
  if the bug number is 1968400, the patch is counted as peer-authored; for any other bug
  number the script writes its message for a bug without reviewer string and exits
  with \<open>-1\<close>.
\<close>

theorem reviewerless_recent:
  assumes "nl \<notin> set line" and "\<not> (\<exists>pre post. line = pre @ ''r='' @ post)"
    and "gitRepo w revision = Some c" and "\<not> dateIsOld w (cI c)"
  shows "reviewStep w (revision, bugnumber, line) st =
     (if bugnumber = ''1968400''
      then Inr (st\<lparr>numPeerAuthored := numPeerAuthored st + 1,
                   gitCalls := gitCalls st @ [(Fmt_cI, revision)]\<rparr>)
      else Inl (SystemExit (- 1),
                st\<lparr>stderr := stderr st @
                      ''Error: non-old bug without reviewer string: '' @ line @ [nl],
                   gitCalls := gitCalls st @ [(Fmt_cI, revision)]\<rparr>))"
proof -
  from assms(1,2) have "rEqualPattern_search line = None"
    by (simp add: rEqualPattern_search_None)
  with assms(3,4) show ?thesis by (simp add: step_defs)
qed

text \<open>
  C9 as stated says that bug 1968400 is counted without consulting the repository. On
  this line, which has no reviewers and a commit one day old, the step that counts it
  has run \<^verbatim>\<open>git show\<close> for the date of the commit.
\<close>

theorem reviewerless_consults_repository:
  "rEqualPattern_search ''aaa Bug 1968400 - x'' = None \<and>
   gitRepo example_world ''aaa'' = Some \<lparr>cI = timedelta_days 19999, ce = ''dev@example.org'', ae = ''dev@example.org''\<rparr> \<and>
   \<not> dateIsOld example_world (timedelta_days 19999) \<and>
   reviewStep example_world (''aaa'', ''1968400'', ''aaa Bug 1968400 - x'') initial =
     Inr (initial\<lparr>numPeerAuthored := 1, gitCalls := [(Fmt_cI, ''aaa'')]\<rparr>) \<and>
   gitCalls (initial\<lparr>numPeerAuthored := 1, gitCalls := [(Fmt_cI, ''aaa'')]\<rparr>) \<noteq> []"
  by code_simp

theorem reviewerless_recent_witness:
  "nl \<notin> set ''aaa Bug 1968400 - x'' \<and>
   \<not> (\<exists>pre post. ''aaa Bug 1968400 - x'' = pre @ ''r='' @ post) \<and>
   reviewStep example_world (''aaa'', ''1968400'', ''aaa Bug 1968400 - x'') initial =
     Inr (initial\<lparr>numPeerAuthored := 1, gitCalls := [(Fmt_cI, ''aaa'')]\<rparr>) \<and>
   reviewStep example_world (''aaa'', ''1968401'', ''aaa Bug 1968401 - x'') initial =
     Inl (SystemExit (- 1),
          initial\<lparr>stderr := ''Error: non-old bug without reviewer string: aaa Bug 1968401 - x'' @ [nl],
                  gitCalls := [(Fmt_cI, ''aaa'')]\<rparr>)"
proof -
  let ?c = "\<lparr>cI = timedelta_days 19999, ce = ''dev@example.org'', ae = ''dev@example.org''\<rparr>"
  have n1: "nl \<notin> set ''aaa Bug 1968400 - x''" and n2: "nl \<notin> set ''aaa Bug 1968401 - x''"
    by (simp_all add: nl_def)
  have "rEqualPattern_search ''aaa Bug 1968400 - x'' = None"
    and "rEqualPattern_search ''aaa Bug 1968401 - x'' = None"
    by code_simp+
  with n1 n2 have s1: "\<not> (\<exists>pre post. ''aaa Bug 1968400 - x'' = pre @ ''r='' @ post)"
    and s2: "\<not> (\<exists>pre post. ''aaa Bug 1968401 - x'' = pre @ ''r='' @ post)"
    by (simp_all only: rEqualPattern_search_None simp_thms)
  have repo: "gitRepo example_world ''aaa'' = Some ?c"
    by (simp add: example_world_def)
  have young: "\<not> dateIsOld example_world (cI ?c)"
    by (simp add: dateIsOld_def example_world_def timedelta_days_def numOldYears_def)
  from reviewerless_recent [OF n1 s1 repo young, of "''1968400''" initial]
  have a: "reviewStep example_world (''aaa'', ''1968400'', ''aaa Bug 1968400 - x'') initial =
     Inr (initial\<lparr>numPeerAuthored := 1, gitCalls := [(Fmt_cI, ''aaa'')]\<rparr>)"
    by (simp add: initial_def)
  from reviewerless_recent [OF n2 s2 repo young, of "''1968401''" initial]
  have b: "reviewStep example_world (''aaa'', ''1968401'', ''aaa Bug 1968401 - x'') initial =
     Inl (SystemExit (- 1),
          initial\<lparr>stderr := ''Error: non-old bug without reviewer string: aaa Bug 1968401 - x'' @ [nl],
                  gitCalls := [(Fmt_cI, ''aaa'')]\<rparr>)"
    by (simp add: initial_def)
  from n1 s1 a b show ?thesis by blast
qed

section \<open>The second loop: reviewers and peers\<close>

lemma peers_plain: "\<forall>p\<in>set webIDLPeersRE. CHR ''.'' \<notin> set p"
  by (simp add: webIDLPeersRE_def)

lemma webIDLPeersPattern_match_iff:
  "webIDLPeersPattern_match r \<longleftrightarrow> (\<exists>p\<in>set webIDLPeersRE. r = p \<or> r = p @ [nl])"
proof -
  have "(case re_lit p r of None \<Rightarrow> False | Some t \<Rightarrow> re_end t) \<longleftrightarrow> r = p \<or> r = p @ [nl]"
    if "p \<in> set webIDLPeersRE" for p
  proof -
    from that peers_plain have plain: "CHR ''.'' \<notin> set p" by blast
    show ?thesis
    proof (cases "re_lit p r")
      case None
      with re_lit_literal [OF plain, of r] show ?thesis by auto
    next
      case (Some t)
      with re_lit_literal [OF plain, of r t] show ?thesis by (auto simp: re_end_def)
    qed
  qed
  then show ?thesis
    by (auto simp: webIDLPeersPattern_match_def re_alt_def list_ex_iff)
qed

lemma reviewer_char_nl: "\<not> reviewer_char nl"
  by (simp add: reviewer_char_def nl_def)

lemma reviewerName_no_newline: "reviewerName r0 = Some name \<Longrightarrow> nl \<notin> set name"
proof -
  assume a: "reviewerName r0 = Some name"
  have tw: "nl \<notin> set (takeWhile reviewer_char t)" for t
    using reviewer_char_nl by (auto dest: set_takeWhileD)
  have em: "nl \<notin> set ''emilio''"
    by (simp add: nl_def)
  from a have "name = ''emilio'' \<or> (\<exists>t. name = takeWhile reviewer_char t)"
    by (auto simp: reviewerName_def reviewerPattern_match_def Let_def
        split: option.splits if_splits)
  with tw em show ?thesis by blast
qed

lemma reviewerName_peer:
  assumes "reviewerName r0 = Some name"
  shows "webIDLPeersPattern_match name \<longleftrightarrow> name \<in> set webIDLPeersRE"
proof -
  from assms have "nl \<notin> set name" by (rule reviewerName_no_newline)
  then have "name \<noteq> p @ [nl]" for p by auto
  then show ?thesis by (auto simp: webIDLPeersPattern_match_iff)
qed

lemma parseReviewers_loop_OK:
  "parseReviewers_loop rs = ''OK'' \<longleftrightarrow>
   (\<exists>pre r post name. rs = pre @ r # post \<and> (\<forall>x\<in>set pre. reviewerName x \<noteq> None) \<and>
      reviewerName r = Some name \<and> name \<in> set webIDLPeersRE)"
proof (induction rs)
  case Nil
  then show ?case by simp
next
  case (Cons r0 rs)
  show ?case
  proof (cases "reviewerName r0")
    case None
    then have "parseReviewers_loop (r0 # rs) \<noteq> ''OK''" by simp
    moreover from None have "\<not> (\<exists>pre r post name. r0 # rs = pre @ r # post \<and>
        (\<forall>x\<in>set pre. reviewerName x \<noteq> None) \<and>
        reviewerName r = Some name \<and> name \<in> set webIDLPeersRE)"
      by (auto simp: Cons_eq_append_conv)
    ultimately show ?thesis by blast
  next
    case (Some n)
    show ?thesis
    proof (cases "n \<in> set webIDLPeersRE")
      case True
      with Some have "parseReviewers_loop (r0 # rs) = ''OK''"
        by (simp add: reviewerName_peer)
      moreover from Some True have "r0 # rs = [] @ r0 # rs \<and>
          (\<forall>x\<in>set []. reviewerName x \<noteq> None) \<and> reviewerName r0 = Some n \<and>
          n \<in> set webIDLPeersRE"
        by simp
      ultimately show ?thesis by blast
    next
      case False
      with Some have "parseReviewers_loop (r0 # rs) = parseReviewers_loop rs"
        by (simp add: reviewerName_peer)
      moreover have "(\<exists>pre r post name. r0 # rs = pre @ r # post \<and>
          (\<forall>x\<in>set pre. reviewerName x \<noteq> None) \<and>
          reviewerName r = Some name \<and> name \<in> set webIDLPeersRE) \<longleftrightarrow>
        (\<exists>pre r post name. rs = pre @ r # post \<and>
          (\<forall>x\<in>set pre. reviewerName x \<noteq> None) \<and>
          reviewerName r = Some name \<and> name \<in> set webIDLPeersRE)"
        (is "?L \<longleftrightarrow> ?R")
      proof
        assume ?L
        then obtain pre r post name where d: "r0 # rs = pre @ r # post"
          and ok: "\<forall>x\<in>set pre. reviewerName x \<noteq> None"
          and peer: "reviewerName r = Some name" "name \<in> set webIDLPeersRE"
          by blast
        show ?R
        proof (cases pre)
          case Nil
          with d have "r = r0" by simp
          with peer Some False show ?thesis by simp
        next
          case (Cons x pre')
          with d have "rs = pre' @ r # post" by simp
          moreover from Cons ok have "\<forall>x\<in>set pre'. reviewerName x \<noteq> None" by simp
          ultimately show ?thesis using peer by blast
        qed
      next
        assume ?R
        then obtain pre r post name where d: "rs = pre @ r # post"
          and ok: "\<forall>x\<in>set pre. reviewerName x \<noteq> None"
          and peer: "reviewerName r = Some name" "name \<in> set webIDLPeersRE"
          by blast
        from d have "r0 # rs = (r0 # pre) @ r # post" by simp
        moreover from ok Some have "\<forall>x\<in>set (r0 # pre). reviewerName x \<noteq> None" by simp
        ultimately show ?L using peer by blast
      qed
      ultimately show ?thesis using Cons.IH by simp
    qed
  qed
qed

lemma reviewStep_numHasPeer:
  assumes "rEqualPattern_search line = Some rString"
  shows "(\<exists>st'. reviewStep w (revision, bugnumber, line) st = Inr st' \<and>
            numHasPeer st' = numHasPeer st + 1) \<longleftrightarrow> parseReviewers rString = ''OK''"
  using assms by (auto simp: step_defs split: option.splits if_splits)

text \<open>
  The reviewer pattern and the name of an element, on text without a newline, in the
  words of \<open>spec_reviewerName\<close>.
\<close>

lemma reviewer_run:
  assumes "nl \<notin> set t"
  shows "takeWhile reviewer_char t \<noteq> [] \<and> re_end (dropWhile reviewer_char t) \<and>
         takeWhile reviewer_char t = name \<longleftrightarrow>
         t = name \<and> name \<noteq> [] \<and> (\<forall>c\<in>set name. reviewer_char c)"
proof -
  have "dropWhile reviewer_char t \<noteq> [nl]"
  proof
    assume "dropWhile reviewer_char t = [nl]"
    then have "nl \<in> set (dropWhile reviewer_char t)" by simp
    then have "nl \<in> set t" by (rule set_dropWhileD)
    with assms show False by simp
  qed
  then have e: "re_end (dropWhile reviewer_char t) \<longleftrightarrow> (\<forall>c\<in>set t. reviewer_char c)"
    by (simp add: re_end_def dropWhile_eq_Nil_conv)
  show ?thesis
  proof (cases "\<forall>c\<in>set t. reviewer_char c")
    case True
    then have tw: "takeWhile reviewer_char t = t" by (simp add: takeWhile_eq_all_conv)
    show ?thesis unfolding tw e using True by auto
  next
    case False
    with e show ?thesis by auto
  qed
qed

lemma equals_not_reviewer_char: "\<not> reviewer_char (CHR ''='')" "\<not> reviewer_char (CHR '' '')"
  by (simp_all add: reviewer_char_def)

lemma reviewerPattern_match_iff:
  assumes "nl \<notin> set r"
  shows "reviewerPattern_match r = Some name \<longleftrightarrow>
         name \<noteq> [] \<and> (\<forall>c\<in>set name. reviewer_char c) \<and>
         (r = name \<or> r = ''r='' @ name \<or> r = ''sr='' @ name)"
proof -
  have lit: "re_lit ''r='' r = Some u \<longleftrightarrow> r = ''r='' @ u"
    "re_lit ''sr='' r = Some u \<longleftrightarrow> r = ''sr='' @ u" for u
    by (rule re_lit_literal, simp)+
  have plain: "r \<noteq> ''r='' @ n \<and> r \<noteq> ''sr='' @ n" if "\<forall>c\<in>set r. reviewer_char c" for n
    using that equals_not_reviewer_char by auto
  have pre: "name \<noteq> ''r='' @ u \<and> name \<noteq> ''sr='' @ u" if "\<forall>c\<in>set name. reviewer_char c" for u
    using that equals_not_reviewer_char by auto
  show ?thesis
  proof (cases "re_lit ''r='' r")
    case (Some u)
    then have r: "r = ''r='' @ u" by (simp only: lit)
    with assms have "nl \<notin> set u" by simp
    from reviewer_run [OF this, of name] Some
    have "reviewerPattern_match r = Some name \<longleftrightarrow>
        u = name \<and> name \<noteq> [] \<and> (\<forall>c\<in>set name. reviewer_char c)"
      by (auto simp: reviewerPattern_match_def)
    with r pre show ?thesis by auto
  next
    case None
    note n1 = this
    show ?thesis
    proof (cases "re_lit ''sr='' r")
      case (Some u)
      then have r: "r = ''sr='' @ u" by (simp only: lit)
      with assms have "nl \<notin> set u" by simp
      from reviewer_run [OF this, of name] Some n1
      have "reviewerPattern_match r = Some name \<longleftrightarrow>
          u = name \<and> name \<noteq> [] \<and> (\<forall>c\<in>set name. reviewer_char c)"
        by (auto simp: reviewerPattern_match_def)
      with r pre show ?thesis by auto
    next
      case None
      from n1 have a: "r \<noteq> ''r='' @ u" for u using lit(1) [of u] by simp
      from None have b: "r \<noteq> ''sr='' @ u" for u using lit(2) [of u] by simp
      from reviewer_run [OF assms, of name] None n1
      have "reviewerPattern_match r = Some name \<longleftrightarrow>
          r = name \<and> name \<noteq> [] \<and> (\<forall>c\<in>set name. reviewer_char c)"
        by (auto simp: reviewerPattern_match_def)
      with a b show ?thesis by auto
    qed
  qed
qed

lemma stripped_set: "set (rstrip_chars cs (strip_chars ds s)) \<subseteq> set s"
proof -
  have "set (dropWhile P (rev (dropWhile Q s))) \<subseteq> set s" for P Q
    by (auto dest!: set_dropWhileD)
  then have "set (rstrip_chars cs (rev (dropWhile P (rev (dropWhile Q s))))) \<subseteq> set s" for P Q
    unfolding rstrip_chars_def by (auto dest!: set_dropWhileD)
  then show ?thesis unfolding strip_chars_def .
qed

lemma dontbuild: "reviewerPattern_match ''emilio DONTBUILD'' = None"
  by code_simp

lemma reviewerName_spec:
  assumes "nl \<notin> set element"
  shows "reviewerName element = Some name \<longleftrightarrow> spec_reviewerName element name"
proof -
  define r where "r = rstrip_chars '' .])'' (strip_chars '' '' element)"
  from assms stripped_set [of "'' .])''" "'' ''" element] have n: "nl \<notin> set r"
    unfolding r_def by blast
  note m = reviewerPattern_match_iff [OF n]
  show ?thesis
  proof (cases "r = ''emilio DONTBUILD''")
    case True
    with dontbuild have "reviewerPattern_match r = None" by simp
    with True have 1: "reviewerName element = Some name \<longleftrightarrow> name = ''emilio''"
      unfolding reviewerName_def r_def [symmetric] by (auto simp: Let_def)
    from m [of name] \<open>reviewerPattern_match r = None\<close>
    have "\<not> (name \<noteq> [] \<and> (\<forall>c\<in>set name. reviewer_char c) \<and>
         (r = name \<or> r = ''r='' @ name \<or> r = ''sr='' @ name))" by simp
    with True have 2: "spec_reviewerName element name \<longleftrightarrow> name = ''emilio''"
      unfolding spec_reviewerName_def r_def [symmetric] by (auto simp: Let_def)
    from 1 2 show ?thesis by simp
  next
    case False
    then have 1: "reviewerName element = Some name \<longleftrightarrow> reviewerPattern_match r = Some name"
      unfolding reviewerName_def r_def [symmetric] by (auto simp: Let_def split: option.splits)
    from False have 2: "spec_reviewerName element name \<longleftrightarrow>
        name \<noteq> [] \<and> (\<forall>c\<in>set name. reviewer_char c) \<and>
         (r = name \<or> r = ''r='' @ name \<or> r = ''sr='' @ name)"
      unfolding spec_reviewerName_def r_def [symmetric] by (auto simp: Let_def)
    from 1 2 m [of name] show ?thesis by simp
  qed
qed

lemma rEqualPattern_search_line: "rEqualPattern_search line = Some rString \<Longrightarrow> nl \<notin> set rString"
proof (induction line)
  case Nil
  then show ?case by simp
next
  case (Cons c cs)
  have "nl \<notin> set g" if "re_dotstar_end t = Some g" for t g
    using that by (auto simp: re_dotstar_end_def split: if_splits dest: set_takeWhileD)
  with Cons show ?case by (auto split: option.splits)
qed

lemma split_on_sets: "\<forall>x\<in>set (split_on sep s). set x \<subseteq> set s"
proof (induction s)
  case Nil
  then show ?case by simp
next
  case (Cons c cs)
  show ?case
  proof (cases "split_on sep cs")
    case Nil
    then show ?thesis by simp
  next
    case (Cons p ps)
    with Cons.IH have "set p \<subseteq> set cs" and "\<forall>x\<in>set ps. set x \<subseteq> set cs" by simp_all
    with Cons show ?thesis by auto
  qed
qed

lemma split_on_set: "x \<in> set (split_on sep s) \<Longrightarrow> set x \<subseteq> set s"
  using split_on_sets by blast

lemma parseReviewers_loop_BAD_PARSE:
  "parseReviewers_loop rs = ''BAD_PARSE'' \<longleftrightarrow>
   (\<exists>pre r post. rs = pre @ r # post \<and>
      (\<forall>x\<in>set pre. \<exists>n. reviewerName x = Some n \<and> n \<notin> set webIDLPeersRE) \<and>
      reviewerName r = None)"
  (is "_ \<longleftrightarrow> ?R rs")
proof (induction rs)
  case Nil
  then show ?case by simp
next
  case (Cons r0 rs)
  show ?case
  proof (cases "reviewerName r0")
    case None
    then have "r0 # rs = [] @ r0 # rs \<and>
        (\<forall>x\<in>set []. \<exists>n. reviewerName x = Some n \<and> n \<notin> set webIDLPeersRE) \<and>
        reviewerName r0 = None"
      by simp
    then have "?R (r0 # rs)" by blast
    with None show ?thesis by simp
  next
    case (Some n)
    have step: "?R (r0 # rs) \<longleftrightarrow> n \<notin> set webIDLPeersRE \<and> ?R rs"
    proof
      assume "?R (r0 # rs)"
      then obtain pre r post where d: "r0 # rs = pre @ r # post"
        and ok: "\<forall>x\<in>set pre. \<exists>n. reviewerName x = Some n \<and> n \<notin> set webIDLPeersRE"
        and bad: "reviewerName r = None"
        by blast
      show "n \<notin> set webIDLPeersRE \<and> ?R rs"
      proof (cases pre)
        case Nil
        with d have "r = r0" by simp
        with bad Some show ?thesis by simp
      next
        case (Cons x pre')
        with d have "x = r0" and "rs = pre' @ r # post" by simp_all
        with Cons ok bad Some show ?thesis by auto
      qed
    next
      assume a: "n \<notin> set webIDLPeersRE \<and> ?R rs"
      then obtain pre r post where d: "rs = pre @ r # post"
        and ok: "\<forall>x\<in>set pre. \<exists>n. reviewerName x = Some n \<and> n \<notin> set webIDLPeersRE"
        and bad: "reviewerName r = None"
        by blast
      from d have "r0 # rs = (r0 # pre) @ r # post" by simp
      moreover from ok a Some
      have "\<forall>x\<in>set (r0 # pre). \<exists>n. reviewerName x = Some n \<and> n \<notin> set webIDLPeersRE"
        by simp
      ultimately show "?R (r0 # rs)" using bad by blast
    qed
    from Some have "parseReviewers_loop (r0 # rs) = ''BAD_PARSE'' \<longleftrightarrow>
        n \<notin> set webIDLPeersRE \<and> parseReviewers_loop rs = ''BAD_PARSE''"
      by (simp add: reviewerName_peer)
    with step Cons.IH show ?thesis by simp
  qed
qed

lemma parseReviewers_loop_MISSING:
  "parseReviewers_loop rs = ''MISSING'' \<longleftrightarrow>
   (\<forall>x\<in>set rs. \<exists>n. reviewerName x = Some n \<and> n \<notin> set webIDLPeersRE)"
  by (induction rs) (auto simp: reviewerName_peer split: option.splits)

lemma decomposition_cong:
  assumes "\<And>x. x \<in> set xs \<Longrightarrow> A x = A' x" and "\<And>x. x \<in> set xs \<Longrightarrow> B x = B' x"
  shows "(\<exists>pre r post. xs = pre @ r # post \<and> (\<forall>x\<in>set pre. A x) \<and> B r) \<longleftrightarrow>
         (\<exists>pre r post. xs = pre @ r # post \<and> (\<forall>x\<in>set pre. A' x) \<and> B' r)"
proof -
  have "(\<forall>x\<in>set pre. A x) \<and> B r \<longleftrightarrow> (\<forall>x\<in>set pre. A' x) \<and> B' r"
    if "xs = pre @ r # post" for pre r post
    using that assms by auto
  then show ?thesis by blast
qed

text \<open>
  C3, as the code has it. For a bug-fix line with a reviewer annotation, the patch is
  counted in \<open>numHasPeer\<close> exactly when \<open>parseReviewers\<close> returns \<^verbatim>\<open>"OK"\<close>. It returns
  \<^verbatim>\<open>"OK"\<close> exactly when some element of the comma-separated annotation names a
  member of the peer list and every element before it parses as a reviewer name;
  \<^verbatim>\<open>"BAD_PARSE"\<close> exactly when some element does not parse as a reviewer name and every
  element before it parses and names no peer; and \<^verbatim>\<open>"MISSING"\<close> exactly when every
  element parses and none names a peer. An element parses as a reviewer name when,
  stripped of spaces and then of trailing characters of \<^verbatim>\<open> .])\<close>, it is a nonempty
  name of letters, digits, \<^verbatim>\<open>-\<close>, \<^verbatim>\<open>.\<close> and \<^verbatim>\<open>_\<close> after an optional \<^verbatim>\<open>r=\<close> or
  \<^verbatim>\<open>sr=\<close>, or is \<^verbatim>\<open>emilio DONTBUILD\<close>, which names emilio.
\<close>

theorem peer_review_validation:
  assumes "rEqualPattern_search line = Some rString"
  shows "((\<exists>st'. reviewStep w (revision, bugnumber, line) st = Inr st' \<and>
             numHasPeer st' = numHasPeer st + 1) \<longleftrightarrow> parseReviewers rString = ''OK'') \<and>
         (parseReviewers rString = ''OK'' \<longleftrightarrow>
            (\<exists>pre r post. split_on (CHR '','') rString = pre @ r # post \<and>
               (\<forall>x\<in>set pre. \<exists>n. spec_reviewerName x n) \<and>
               (\<exists>name. spec_reviewerName r name \<and> name \<in> set webIDLPeersRE))) \<and>
         (parseReviewers rString = ''BAD_PARSE'' \<longleftrightarrow>
            (\<exists>pre r post. split_on (CHR '','') rString = pre @ r # post \<and>
               (\<forall>x\<in>set pre. \<exists>n. spec_reviewerName x n \<and> n \<notin> set webIDLPeersRE) \<and>
               \<not> (\<exists>n. spec_reviewerName r n))) \<and>
         (parseReviewers rString = ''MISSING'' \<longleftrightarrow>
            (\<forall>x\<in>set (split_on (CHR '','') rString).
               \<exists>n. spec_reviewerName x n \<and> n \<notin> set webIDLPeersRE))"
proof -
  define xs where "xs = split_on (CHR '','') rString"
  from assms have "nl \<notin> set rString" by (rule rEqualPattern_search_line)
  then have "nl \<notin> set x" if "x \<in> set xs" for x
    using split_on_set [of x "CHR '',''" rString] that unfolding xs_def by blast
  then have spec: "reviewerName x = Some n \<longleftrightarrow> spec_reviewerName x n" if "x \<in> set xs" for x n
    using that by (simp add: reviewerName_spec)
  have some: "reviewerName x \<noteq> None \<longleftrightarrow> (\<exists>n. spec_reviewerName x n)"
    and none: "reviewerName x = None \<longleftrightarrow> \<not> (\<exists>n. spec_reviewerName x n)"
    and peer: "(\<exists>name. reviewerName x = Some name \<and> name \<in> set webIDLPeersRE) \<longleftrightarrow>
               (\<exists>name. spec_reviewerName x name \<and> name \<in> set webIDLPeersRE)"
    and nopeer: "(\<exists>n. reviewerName x = Some n \<and> n \<notin> set webIDLPeersRE) \<longleftrightarrow>
               (\<exists>n. spec_reviewerName x n \<and> n \<notin> set webIDLPeersRE)"
    if "x \<in> set xs" for x
  proof -
    from spec [OF that] have s: "spec_reviewerName x n \<longleftrightarrow> reviewerName x = Some n" for n
      by simp
    show "reviewerName x \<noteq> None \<longleftrightarrow> (\<exists>n. spec_reviewerName x n)"
      and "reviewerName x = None \<longleftrightarrow> \<not> (\<exists>n. spec_reviewerName x n)"
      and "(\<exists>name. reviewerName x = Some name \<and> name \<in> set webIDLPeersRE) \<longleftrightarrow>
               (\<exists>name. spec_reviewerName x name \<and> name \<in> set webIDLPeersRE)"
      and "(\<exists>n. reviewerName x = Some n \<and> n \<notin> set webIDLPeersRE) \<longleftrightarrow>
               (\<exists>n. spec_reviewerName x n \<and> n \<notin> set webIDLPeersRE)"
      unfolding s by auto
  qed
  have "parseReviewers rString = ''OK'' \<longleftrightarrow>
      (\<exists>pre r post. xs = pre @ r # post \<and> (\<forall>x\<in>set pre. reviewerName x \<noteq> None) \<and>
         (\<exists>name. reviewerName r = Some name \<and> name \<in> set webIDLPeersRE))"
    unfolding parseReviewers_def xs_def [symmetric] parseReviewers_loop_OK by blast
  also have "\<dots> \<longleftrightarrow> (\<exists>pre r post. xs = pre @ r # post \<and>
         (\<forall>x\<in>set pre. \<exists>n. spec_reviewerName x n) \<and>
         (\<exists>name. spec_reviewerName r name \<and> name \<in> set webIDLPeersRE))"
    by (rule decomposition_cong) (rule some peer, assumption)+
  finally have ok: "parseReviewers rString = ''OK'' \<longleftrightarrow>
      (\<exists>pre r post. xs = pre @ r # post \<and> (\<forall>x\<in>set pre. \<exists>n. spec_reviewerName x n) \<and>
         (\<exists>name. spec_reviewerName r name \<and> name \<in> set webIDLPeersRE))" .
  have "parseReviewers rString = ''BAD_PARSE'' \<longleftrightarrow>
      (\<exists>pre r post. xs = pre @ r # post \<and>
         (\<forall>x\<in>set pre. \<exists>n. reviewerName x = Some n \<and> n \<notin> set webIDLPeersRE) \<and>
         reviewerName r = None)"
    unfolding parseReviewers_def xs_def [symmetric] by (rule parseReviewers_loop_BAD_PARSE)
  also have "\<dots> \<longleftrightarrow> (\<exists>pre r post. xs = pre @ r # post \<and>
         (\<forall>x\<in>set pre. \<exists>n. spec_reviewerName x n \<and> n \<notin> set webIDLPeersRE) \<and>
         \<not> (\<exists>n. spec_reviewerName r n))"
    by (rule decomposition_cong) (rule nopeer none, assumption)+
  finally have bad: "parseReviewers rString = ''BAD_PARSE'' \<longleftrightarrow>
      (\<exists>pre r post. xs = pre @ r # post \<and>
         (\<forall>x\<in>set pre. \<exists>n. spec_reviewerName x n \<and> n \<notin> set webIDLPeersRE) \<and>
         \<not> (\<exists>n. spec_reviewerName r n))" .
  have "parseReviewers rString = ''MISSING'' \<longleftrightarrow>
      (\<forall>x\<in>set xs. \<exists>n. reviewerName x = Some n \<and> n \<notin> set webIDLPeersRE)"
    unfolding parseReviewers_def xs_def [symmetric] by (rule parseReviewers_loop_MISSING)
  with nopeer have missing: "parseReviewers rString = ''MISSING'' \<longleftrightarrow>
      (\<forall>x\<in>set xs. \<exists>n. spec_reviewerName x n \<and> n \<notin> set webIDLPeersRE)"
    by simp
  from reviewStep_numHasPeer [OF assms] ok bad missing show ?thesis
    unfolding xs_def by blast
qed

text \<open>
  C3 as stated asks only for a peer among the reviewers. In this annotation the second
  reviewer, smaug, is a peer, but the first element does not parse as a name, so
  \<open>parseReviewers\<close> returns \<^verbatim>\<open>"BAD_PARSE"\<close> before it reaches him and the patch is not
  counted in \<open>numHasPeer\<close>.
\<close>

theorem unparsable_before_peer:
  "rEqualPattern_search ''old Bug 1 - x r=foo bar,smaug'' = Some ''foo bar,smaug'' \<and>
   split_on (CHR '','') ''foo bar,smaug'' = [''foo bar'', ''smaug''] \<and>
   ''smaug'' \<in> set webIDLPeersRE \<and>
   parseReviewers ''foo bar,smaug'' = ''BAD_PARSE'' \<and>
   reviewStep example_world (''old'', ''1'', ''old Bug 1 - x r=foo bar,smaug'') initial =
     Inr (initial\<lparr>numOldUnparsableReviewers := 1, gitCalls := [(Fmt_cI, ''old'')]\<rparr>) \<and>
   numHasPeer (initial\<lparr>numOldUnparsableReviewers := 1, gitCalls := [(Fmt_cI, ''old'')]\<rparr>) = 0"
  by code_simp

theorem peer_review_validation_witness:
  "rEqualPattern_search ''bbb Bug 12 - y r=foo, smaug.'' = Some ''foo, smaug.'' \<and>
   (\<exists>st'. reviewStep example_world (''bbb'', ''12'', ''bbb Bug 12 - y r=foo, smaug.'') initial =
            Inr st' \<and> numHasPeer st' = numHasPeer initial + 1) \<and>
   (\<exists>pre r post. split_on (CHR '','') ''foo, smaug.'' = pre @ r # post \<and>
      (\<forall>x\<in>set pre. \<exists>n. spec_reviewerName x n) \<and>
      (\<exists>name. spec_reviewerName r name \<and> name \<in> set webIDLPeersRE)) \<and>
   rEqualPattern_search ''old Bug 1 - x r=foo bar,smaug'' = Some ''foo bar,smaug'' \<and>
   (\<exists>pre r post. split_on (CHR '','') ''foo bar,smaug'' = pre @ r # post \<and>
      (\<forall>x\<in>set pre. \<exists>n. spec_reviewerName x n \<and> n \<notin> set webIDLPeersRE) \<and>
      \<not> (\<exists>n. spec_reviewerName r n)) \<and>
   rEqualPattern_search ''aaa Bug 7 - y r=foo'' = Some ''foo'' \<and>
   split_on (CHR '','') ''foo'' = [''foo''] \<and>
   (\<exists>n. spec_reviewerName ''foo'' n \<and> n \<notin> set webIDLPeersRE) \<and>
   \<not> (\<exists>st'. reviewStep example_world (''aaa'', ''7'', ''aaa Bug 7 - y r=foo'') initial = Inr st' \<and>
          numHasPeer st' = numHasPeer initial + 1)"
proof -
  have sp: "split_on (CHR '','') ''foo'' = [''foo'']"
    by code_simp
  have s1: "rEqualPattern_search ''bbb Bug 12 - y r=foo, smaug.'' = Some ''foo, smaug.''"
    and p1: "parseReviewers ''foo, smaug.'' = ''OK''"
    and s2: "rEqualPattern_search ''old Bug 1 - x r=foo bar,smaug'' = Some ''foo bar,smaug''"
    and p2: "parseReviewers ''foo bar,smaug'' = ''BAD_PARSE''"
    and s3: "rEqualPattern_search ''aaa Bug 7 - y r=foo'' = Some ''foo''"
    and p3: "parseReviewers ''foo'' = ''MISSING''"
    by code_simp+
  from p3 have n3: "parseReviewers ''foo'' \<noteq> ''OK''" by simp
  from peer_review_validation [OF s1, of example_world "''bbb''" "''12''" initial] p1
  have 1: "\<exists>st'. reviewStep example_world (''bbb'', ''12'', ''bbb Bug 12 - y r=foo, smaug.'') initial =
            Inr st' \<and> numHasPeer st' = numHasPeer initial + 1"
    and 2: "\<exists>pre r post. split_on (CHR '','') ''foo, smaug.'' = pre @ r # post \<and>
      (\<forall>x\<in>set pre. \<exists>n. spec_reviewerName x n) \<and>
      (\<exists>name. spec_reviewerName r name \<and> name \<in> set webIDLPeersRE)"
    by blast+
  from peer_review_validation [OF s2, of example_world "''old''" "''1''" initial] p2
  have 3: "\<exists>pre r post. split_on (CHR '','') ''foo bar,smaug'' = pre @ r # post \<and>
      (\<forall>x\<in>set pre. \<exists>n. spec_reviewerName x n \<and> n \<notin> set webIDLPeersRE) \<and>
      \<not> (\<exists>n. spec_reviewerName r n)"
    by blast
  from peer_review_validation [OF s3, of example_world "''aaa''" "''7''" initial] p3 n3
  have 4: "\<forall>x\<in>set (split_on (CHR '','') ''foo''). \<exists>n. spec_reviewerName x n \<and> n \<notin> set webIDLPeersRE"
    and 5: "\<not> (\<exists>st'. reviewStep example_world (''aaa'', ''7'', ''aaa Bug 7 - y r=foo'') initial = Inr st' \<and>
          numHasPeer st' = numHasPeer initial + 1)"
    by blast+
  from 4 sp have 6: "\<exists>n. spec_reviewerName ''foo'' n \<and> n \<notin> set webIDLPeersRE"
    by simp
  from s1 1 2 s2 3 s3 sp 6 5 show ?thesis by blast
qed

section \<open>The third loop: the authors of patches without peer review\<close>

lemma reviewStep_pendingList:
  "reviewStep w b s = Inr s' \<Longrightarrow>
   bugsMissingReview s' = bugsMissingReview s @ (if reachesSecondary w b then [b] else [])"
  by (auto simp: step_defs reachesSecondary_def split: option.splits if_splits prod.splits)

lemma classifyStep_keeps_review:
  "classifyStep w raw s = Inr s' \<Longrightarrow>
   bugsMissingReview s' = bugsMissingReview s \<and> numPeerAuthored s' = numPeerAuthored s \<and>
   numKnownMissing s' = numKnownMissing s \<and> numUnknownMissing s' = numUnknownMissing s"
  by (auto simp: step_defs split: option.splits if_splits)

lemma reviewStep_keeps_missing:
  "reviewStep w b s = Inr s' \<Longrightarrow>
   numKnownMissing s' = numKnownMissing s \<and> numUnknownMissing s' = numUnknownMissing s"
  by (auto simp: step_defs split: option.splits if_splits prod.splits)

lemma authorStep_total: "gitRepo w (fst b) \<noteq> None \<Longrightarrow> \<exists>s'. authorStep w b s = Inr s'"
  by (auto simp: step_defs split: prod.splits)

lemma authorStep_gitCalls:
  "authorStep w b s = Inr s' \<Longrightarrow> gitCalls s' = gitCalls s @ [(Fmt_ce, fst b)]"
  by (auto simp: step_defs split: option.splits if_splits prod.splits)

lemma authorStep_numPeerAuthored:
  "authorStep w b s = Inr s' \<Longrightarrow>
   numPeerAuthored s' = numPeerAuthored s + (if committerMatches w b then 1 else 0)"
  by (auto simp: step_defs committerMatches_def split: option.splits if_splits prod.splits)

lemma authorStep_numKnownMissing:
  "authorStep w b s = Inr s' \<Longrightarrow>
   numKnownMissing s' = numKnownMissing s +
     (if \<not> committerMatches w b \<and> fst (snd b) \<in> {''1966190'', ''1979610''} then 1 else 0)"
  by (auto simp: step_defs committerMatches_def split: option.splits if_splits prod.splits)

lemma authorStep_numUnknownMissing:
  "authorStep w b s = Inr s' \<Longrightarrow>
   numUnknownMissing s' = numUnknownMissing s +
     (if \<not> committerMatches w b \<and> fst (snd b) \<notin> {''1966190'', ''1979610''} then 1 else 0)"
  by (auto simp: step_defs committerMatches_def split: option.splits if_splits prod.splits)

lemma authorStep_stderr:
  "authorStep w b s = Inr s' \<Longrightarrow>
   stderr s' = stderr s @
     (if \<not> committerMatches w b \<and> fst (snd b) \<notin> {''1966190'', ''1979610''}
      then ''MISSING WebIDL review for bug '' @ fst (snd b) @ '': '' @ snd (snd b) else [])"
  by (auto simp: step_defs committerMatches_def split: option.splits if_splits prod.splits)

text \<open>
  Both addresses of the list match the e-mail pattern. Their dots are not escaped in the
  pattern, so it also matches an address with another character in the place of a dot.
\<close>

lemma email_pattern_listed:
  "webIDLPeersEmailPattern_match ''emilio@crisal.io'' \<and>
   webIDLPeersEmailPattern_match ''sefeng@mozilla.com''"
  by code_simp

lemma email_pattern_dot: "webIDLPeersEmailPattern_match ''emilio@crisalXio''"
  by code_simp

text \<open>
  The strings that the e-mail pattern matches: those that agree with one of the two
  addresses in every place but the places of its dots, where any character but a
  newline stands; a newline may follow.
\<close>

lemma re_lit_iff:
  "re_lit p s = Some t \<longleftrightarrow>
   (\<exists>u. s = u @ t \<and> list_all2 (\<lambda>pc c. if pc = CHR ''.'' then c \<noteq> nl else c = pc) p u)"
proof (induction p s rule: re_lit.induct)
  case (1 s)
  then show ?case by simp
next
  case (2 p ps)
  then show ?case by (simp add: list_all2_Cons1)
next
  case (3 p ps c cs)
  then show ?case by (auto simp: list_all2_Cons1 Cons_eq_append_conv)
qed

lemma webIDLPeersEmailPattern_match_iff:
  "webIDLPeersEmailPattern_match a \<longleftrightarrow>
   (\<exists>p\<in>{''emilio@crisal.io'', ''sefeng@mozilla.com''}. \<exists>u.
      list_all2 (\<lambda>pc c. if pc = CHR ''.'' then c \<noteq> nl else c = pc) p u \<and>
      (a = u \<or> a = u @ [nl]))"
proof -
  define R where "R = (\<lambda>pc c. if pc = CHR ''.'' then c \<noteq> nl else c = pc)"
  note lit = re_lit_iff [folded R_def]
  have alt: "(case re_lit p a of None \<Rightarrow> False | Some t \<Rightarrow> re_end t) \<longleftrightarrow>
      (\<exists>u. list_all2 R p u \<and> (a = u \<or> a = u @ [nl]))" (is "?L \<longleftrightarrow> ?R") for p
  proof
    assume ?L
    then obtain t where t: "re_lit p a = Some t" and e: "re_end t"
      by (cases "re_lit p a") simp_all
    from t obtain u where "a = u @ t" and "list_all2 R p u"
      unfolding lit by blast
    with e show ?R by (auto simp: re_end_def)
  next
    assume ?R
    then obtain u where u: "list_all2 R p u" and a: "a = u \<or> a = u @ [nl]" by blast
    from a obtain t where "a = u @ t" and e: "re_end t"
      by (auto simp: re_end_def)
    with u have "re_lit p a = Some t" unfolding lit by blast
    with e show ?L by simp
  qed
  show ?thesis
    unfolding webIDLPeersEmailPattern_match_def webIDLPeersEmailRE_def re_alt_def R_def [symmetric]
    by (simp add: alt)
qed

lemma reachesSecondary_known: "reachesSecondary w b \<Longrightarrow> gitRepo w (fst b) \<noteq> None"
  by (auto simp: reachesSecondary_def split: prod.splits option.splits)

lemma firstTwoLoops_cases:
  assumes "firstTwoLoops w lines = Inr s2"
  obtains s1 where
    "forEach (classifyStep w) lines initial = Inr s1" and
    "forEach (reviewStep w) (bugs s1) s1 = Inr s2"
  using assms by (auto simp: firstTwoLoops_def split: sum.splits)

lemma firstTwoLoops_pending:
  assumes "firstTwoLoops w lines = Inr s2"
  shows "bugsMissingReview s2 = filter (reachesSecondary w) (bugEntries lines)"
    and "numKnownMissing s2 = 0" and "numUnknownMissing s2 = 0"
proof -
  from assms obtain s1 where
    1: "forEach (classifyStep w) lines initial = Inr s1" and
    2: "forEach (reviewStep w) (bugs s1) s1 = Inr s2"
    by (rule firstTwoLoops_cases)
  from classifyLoop_bugs [OF 1] have b: "bugs s1 = bugEntries lines"
    by (simp add: initial_def)
  from 1 have "bugsMissingReview s1 = bugsMissingReview initial @ concat (map (\<lambda>_. []) lines)"
    by (rule forEach_collect [where g = bugsMissingReview, rotated])
       (simp add: classifyStep_keeps_review)
  then have m1: "bugsMissingReview s1 = []" by (simp add: initial_def)
  from 2 have "bugsMissingReview s2 = bugsMissingReview s1 @
      concat (map (\<lambda>b. if reachesSecondary w b then [b] else []) (bugs s1))"
    by (rule forEach_collect [where g = bugsMissingReview, rotated]) (rule reviewStep_pendingList)
  with m1 b show "bugsMissingReview s2 = filter (reachesSecondary w) (bugEntries lines)"
    by (simp add: concat_filter)
  from 1 have "numKnownMissing s1 = numKnownMissing initial + int (length (filter (\<lambda>_. False) lines))"
    by (rule forEach_count [where f = numKnownMissing, rotated]) (simp add: classifyStep_keeps_review)
  moreover from 2 have "numKnownMissing s2 = numKnownMissing s1 + int (length (filter (\<lambda>_. False) (bugs s1)))"
    by (rule forEach_count [where f = numKnownMissing, rotated]) (simp add: reviewStep_keeps_missing)
  ultimately show "numKnownMissing s2 = 0" by (simp add: initial_def)
  from 1 have "numUnknownMissing s1 = numUnknownMissing initial + int (length (filter (\<lambda>_. False) lines))"
    by (rule forEach_count [where f = numUnknownMissing, rotated]) (simp add: classifyStep_keeps_review)
  moreover from 2 have "numUnknownMissing s2 = numUnknownMissing s1 + int (length (filter (\<lambda>_. False) (bugs s1)))"
    by (rule forEach_count [where f = numUnknownMissing, rotated]) (simp add: reviewStep_keeps_missing)
  ultimately show "numUnknownMissing s2 = 0" by (simp add: initial_def)
qed

lemma thirdLoop_runs:
  assumes "firstTwoLoops w lines = Inr s2"
  obtains st where "loops w lines = Inr st" and
    "forEach (authorStep w) (bugsMissingReview s2) (s2\<lparr>bugs := []\<rparr>) = Inr st"
proof -
  have "\<forall>b\<in>set (bugsMissingReview s2). reachesSecondary w b"
    by (simp add: firstTwoLoops_pending(1) [OF assms])
  then have "\<exists>st. forEach (authorStep w) (bugsMissingReview s2) (s2\<lparr>bugs := []\<rparr>) = Inr st"
    by (rule forEach_total [rotated]) (simp add: authorStep_total reachesSecondary_known)
  then obtain st where "forEach (authorStep w) (bugsMissingReview s2) (s2\<lparr>bugs := []\<rparr>) = Inr st"
    by blast
  moreover with assms have "loops w lines = Inr st" by (simp add: loops_def)
  ultimately show ?thesis by (rule that [rotated])
qed

text \<open>
  The third loop in the terms of the code. The patches that reach it are the bug-fix
  entries whose reviewers parsed as missing a peer and whose commit is not old. When the
  first two loops have run to their end the third one does too; it asks git once for
  the committer e-mail of each such patch, in order, and counts the patch as
  peer-authored when the e-mail pattern matches that address, as a known issue when it
  does not and the bug number is 1966190 or 1979610, and as an unknown violation in
  every other case.
\<close>

lemma thirdLoop_counts:
  assumes "firstTwoLoops w lines = Inr st2"
  shows "bugsMissingReview st2 = filter (reachesSecondary w) (bugEntries lines) \<and>
     (\<exists>st. loops w lines = Inr st \<and>
        gitCalls st = gitCalls st2 @ map (\<lambda>b. (Fmt_ce, fst b)) (bugsMissingReview st2) \<and>
        numPeerAuthored st = numPeerAuthored st2 +
          int (length (filter (committerMatches w) (bugsMissingReview st2))) \<and>
        numKnownMissing st =
          int (length (filter (\<lambda>b. \<not> committerMatches w b \<and>
                                   fst (snd b) \<in> {''1966190'', ''1979610''})
                         (bugsMissingReview st2))) \<and>
        numUnknownMissing st =
          int (length (filter (\<lambda>b. \<not> committerMatches w b \<and>
                                   fst (snd b) \<notin> {''1966190'', ''1979610''})
                         (bugsMissingReview st2))))"
proof -
  from assms obtain st where l: "loops w lines = Inr st" and
    3: "forEach (authorStep w) (bugsMissingReview st2) (st2\<lparr>bugs := []\<rparr>) = Inr st"
    by (rule thirdLoop_runs)
  from 3 have "gitCalls st = gitCalls (st2\<lparr>bugs := []\<rparr>) @
      concat (map (\<lambda>b. [(Fmt_ce, fst b)]) (bugsMissingReview st2))"
    by (rule forEach_collect [where g = gitCalls, rotated]) (rule authorStep_gitCalls)
  then have g: "gitCalls st = gitCalls st2 @ map (\<lambda>b. (Fmt_ce, fst b)) (bugsMissingReview st2)"
    by (simp add: concat_map_singleton)
  from 3 have "numPeerAuthored st = numPeerAuthored (st2\<lparr>bugs := []\<rparr>) +
      int (length (filter (committerMatches w) (bugsMissingReview st2)))"
    by (rule forEach_count [where f = numPeerAuthored, rotated]) (rule authorStep_numPeerAuthored)
  then have p: "numPeerAuthored st = numPeerAuthored st2 +
      int (length (filter (committerMatches w) (bugsMissingReview st2)))"
    by simp
  from 3 have "numKnownMissing st = numKnownMissing (st2\<lparr>bugs := []\<rparr>) +
      int (length (filter (\<lambda>b. \<not> committerMatches w b \<and> fst (snd b) \<in> {''1966190'', ''1979610''})
                     (bugsMissingReview st2)))"
    by (rule forEach_count [where f = numKnownMissing, rotated]) (rule authorStep_numKnownMissing)
  then have k: "numKnownMissing st =
      int (length (filter (\<lambda>b. \<not> committerMatches w b \<and> fst (snd b) \<in> {''1966190'', ''1979610''})
                     (bugsMissingReview st2)))"
    by (simp add: firstTwoLoops_pending(2) [OF assms])
  from 3 have "numUnknownMissing st = numUnknownMissing (st2\<lparr>bugs := []\<rparr>) +
      int (length (filter (\<lambda>b. \<not> committerMatches w b \<and> fst (snd b) \<notin> {''1966190'', ''1979610''})
                     (bugsMissingReview st2)))"
    by (rule forEach_count [where f = numUnknownMissing, rotated])
       (rule authorStep_numUnknownMissing)
  then have u: "numUnknownMissing st =
      int (length (filter (\<lambda>b. \<not> committerMatches w b \<and> fst (snd b) \<notin> {''1966190'', ''1979610''})
                     (bugsMissingReview st2)))"
    by (simp add: firstTwoLoops_pending(3) [OF assms])
  from firstTwoLoops_pending(1) [OF assms] l g p k u show ?thesis by blast
qed

lemma example_secondary_run:
  "firstTwoLoops example_world example_log_secondary =
     Inr (initial\<lparr>bugs := example_pending @
                    [(''bbb'', ''12'', ''bbb Bug 12 - y r=smaug''),
                     (''old'', ''9'', ''old Bug 9 - z r=foo'')],
                  numHasPeer := 1, numOldMissing := 1,
                  bugsMissingReview := example_pending,
                  gitCalls := [(Fmt_cI, ''aaa''), (Fmt_cI, ''bbb''), (Fmt_cI, ''aaa''),
                               (Fmt_cI, ''aaa''), (Fmt_cI, ''old'')]\<rparr>)"
  by code_simp

lemma thirdLoop_counts_example:
  "firstTwoLoops example_world example_log_secondary =
     Inr (initial\<lparr>bugs := example_pending @
                    [(''bbb'', ''12'', ''bbb Bug 12 - y r=smaug''),
                     (''old'', ''9'', ''old Bug 9 - z r=foo'')],
                  numHasPeer := 1, numOldMissing := 1,
                  bugsMissingReview := example_pending,
                  gitCalls := [(Fmt_cI, ''aaa''), (Fmt_cI, ''bbb''), (Fmt_cI, ''aaa''),
                               (Fmt_cI, ''aaa''), (Fmt_cI, ''old'')]\<rparr>) \<and>
   filter (reachesSecondary example_world) (bugEntries example_log_secondary) = example_pending \<and>
   (\<exists>st. loops example_world example_log_secondary = Inr st \<and>
      gitCalls st = [(Fmt_cI, ''aaa''), (Fmt_cI, ''bbb''), (Fmt_cI, ''aaa''), (Fmt_cI, ''aaa''),
                     (Fmt_cI, ''old''), (Fmt_ce, ''aaa''), (Fmt_ce, ''bbb''), (Fmt_ce, ''aaa''),
                     (Fmt_ce, ''aaa'')] \<and>
      numPeerAuthored st = 1 \<and> numKnownMissing st = 2 \<and> numUnknownMissing st = 1)"
proof -
  have p: "filter (committerMatches example_world) example_pending =
      [(''bbb'', ''8'', ''bbb Bug 8 - y r=foo'')]"
    by code_simp
  have k: "filter (\<lambda>b. \<not> committerMatches example_world b \<and>
                        fst (snd b) \<in> {''1966190'', ''1979610''}) example_pending =
      [(''aaa'', ''1966190'', ''aaa Bug 1966190 - y r=foo''),
       (''aaa'', ''1979610'', ''aaa Bug 1979610 - z r=foo'')]"
    by code_simp
  have u: "filter (\<lambda>b. \<not> committerMatches example_world b \<and>
                        fst (snd b) \<notin> {''1966190'', ''1979610''}) example_pending =
      [(''aaa'', ''7'', ''aaa Bug 7 - y r=foo'')]"
    by code_simp
  have m: "map (\<lambda>b. (Fmt_ce, fst b)) example_pending =
      [(Fmt_ce, ''aaa''), (Fmt_ce, ''bbb''), (Fmt_ce, ''aaa''), (Fmt_ce, ''aaa'')]"
    by code_simp
  from thirdLoop_counts [OF example_secondary_run] example_secondary_run p k u m
  show ?thesis by (simp add: initial_def)
qed

text \<open>
  C2. The third loop does not test the e-mail of the author of the commit against the
  list. It tests the committer e-mail, and it does so with a pattern whose dots stand
  for any character. The only patch of the first log reaches the third loop and its
  author is on the list, but it was committed by someone else: the script reports it
  as an unknown violation and exits with \<open>-1\<close>. The only patch of the second log
  reaches the third loop under an address that is not on the list, and is counted as
  peer-authored.
\<close>

theorem committer_checked_for_author:
  "bugEntries example_log_peer_author = [(''ccc'', ''7'', ''ccc Bug 7 - y r=foo'')] \<and>
   reachesSecondary example_world (''ccc'', ''7'', ''ccc Bug 7 - y r=foo'') \<and>
   spec_authorOnAllowList example_world (''ccc'', ''7'', ''ccc Bug 7 - y r=foo'') \<and>
   fst (program example_world example_log_peer_author) = Some (SystemExit (- 1)) \<and>
   gitCalls (snd (program example_world example_log_peer_author)) =
     [(Fmt_cI, ''ccc''), (Fmt_ce, ''ccc'')] \<and>
   numPeerAuthored (snd (program example_world example_log_peer_author)) = 0 \<and>
   numUnknownMissing (snd (program example_world example_log_peer_author)) = 1 \<and>
   stderr (snd (program example_world example_log_peer_author)) =
     ''MISSING WebIDL review for bug 7: ccc Bug 7 - y r=foo'' @
     ''!!! Unknown non-old patches missing WebIDL review !!!'' \<and>
   bugEntries example_log_unlisted = [(''ddd'', ''8'', ''ddd Bug 8 - y r=foo'')] \<and>
   reachesSecondary example_world (''ddd'', ''8'', ''ddd Bug 8 - y r=foo'') \<and>
   \<not> spec_authorOnAllowList example_world (''ddd'', ''8'', ''ddd Bug 8 - y r=foo'') \<and>
   ''sefeng@mozilla-com'' \<notin> set webIDLPeersEmailRE \<and>
   fst (program example_world example_log_unlisted) = None \<and>
   numPeerAuthored (snd (program example_world example_log_unlisted)) = 1 \<and>
   numUnknownMissing (snd (program example_world example_log_unlisted)) = 0"
  by code_simp

text \<open>
  What the third loop writes to the error stream: one message for each patch that is
  neither peer-authored nor a known issue, with its bug number and its stripped line,
  and nothing for any other patch.
\<close>

lemma authorLoop_stderr:
  assumes "forEach (authorStep w) bs st = Inr st'"
  shows "stderr st' = stderr st @
     concat (map (\<lambda>b. ''MISSING WebIDL review for bug '' @ fst (snd b) @ '': '' @ snd (snd b))
               (filter (\<lambda>b. \<not> committerMatches w b \<and> fst (snd b) \<notin> {''1966190'', ''1979610''})
                  bs))"
proof -
  from assms have "stderr st' = stderr st @
     concat (map (\<lambda>b. if \<not> committerMatches w b \<and> fst (snd b) \<notin> {''1966190'', ''1979610''}
      then ''MISSING WebIDL review for bug '' @ fst (snd b) @ '': '' @ snd (snd b) else []) bs)"
    by (rule forEach_collect [where g = stderr, rotated]) (rule authorStep_stderr)
  also have "concat (map (\<lambda>b. if \<not> committerMatches w b \<and> fst (snd b) \<notin> {''1966190'', ''1979610''}
      then ''MISSING WebIDL review for bug '' @ fst (snd b) @ '': '' @ snd (snd b) else []) bs) =
     concat (map (\<lambda>b. ''MISSING WebIDL review for bug '' @ fst (snd b) @ '': '' @ snd (snd b))
               (filter (\<lambda>b. \<not> committerMatches w b \<and> fst (snd b) \<notin> {''1966190'', ''1979610''})
                  bs))"
    by (induction bs) simp_all
  finally show ?thesis .
qed

text \<open>
  C8. The message of an unknown violation is written without a line end. A run with two
  such patches leaves both messages and the closing banner on one unfinished line of
  the error stream.
\<close>

theorem violations_share_a_line:
  "fst (program example_world example_log_two_violations) = Some (SystemExit (- 1)) \<and>
   numUnknownMissing (snd (program example_world example_log_two_violations)) = 2 \<and>
   stderr (snd (program example_world example_log_two_violations)) =
     ''MISSING WebIDL review for bug 7: aaa Bug 7 - y r=foo'' @
     ''MISSING WebIDL review for bug 8: aaa Bug 8 - w r=bar'' @
     ''!!! Unknown non-old patches missing WebIDL review !!!'' \<and>
   nl \<notin> set (stderr (snd (program example_world example_log_two_violations)))"
  by code_simp

section \<open>The order of the lookups\<close>

lemma classifyStep_cI:
  "\<forall>c\<in>set (gitCalls s). fst c = Fmt_cI \<Longrightarrow>
   \<forall>c\<in>set (gitCalls (endState (classifyStep w raw s))). fst c = Fmt_cI"
  by (auto simp: step_defs split: option.splits if_splits)

lemma reviewStep_cI:
  "\<forall>c\<in>set (gitCalls s). fst c = Fmt_cI \<Longrightarrow>
   \<forall>c\<in>set (gitCalls (endState (reviewStep w b s))). fst c = Fmt_cI"
  by (auto simp: step_defs split: option.splits if_splits prod.splits)

lemma firstTwoLoops_cI: "\<forall>c\<in>set (gitCalls (endState (firstTwoLoops w lines))). fst c = Fmt_cI"
proof -
  let ?I = "\<lambda>s. \<forall>c\<in>set (gitCalls s). fst c = Fmt_cI"
  have 1: "?I (endState (forEach (classifyStep w) lines initial))"
    by (rule forEach_keeps [where I = ?I]) (simp_all add: classifyStep_cI initial_def)
  show ?thesis
  proof (cases "forEach (classifyStep w) lines initial")
    case (Inl e)
    with 1 show ?thesis by (simp add: firstTwoLoops_def)
  next
    case (Inr s1)
    with 1 have "?I s1" by (simp add: endState_def)
    then have "?I (endState (forEach (reviewStep w) (bugs s1) s1))"
      by (rule forEach_keeps [where I = ?I, rotated]) (rule reviewStep_cI)
    with Inr show ?thesis by (simp add: firstTwoLoops_def)
  qed
qed

lemma only_cI: "\<forall>c\<in>set cs. fst c = Fmt_cI \<Longrightarrow> cs = map (Pair Fmt_cI) (map snd cs)"
  by (induction cs) auto

text \<open>
  C6. In every run, however it ends, the \<^verbatim>\<open>git show\<close> commands are first all the date
  lookups and then all the e-mail lookups. If one of the first two loops ends the
  script there is no e-mail lookup at all; otherwise there is exactly one for each
  bug-fix entry whose reviewers parsed as missing a peer and whose commit is not old,
  in the order of the log. A patch whose reviewers contain a peer is not such an entry
  and so has no e-mail lookup of its own.
\<close>

theorem lookup_order:
  "\<exists>ds. gitCalls (snd (program w lines)) =
      map (Pair Fmt_cI) ds @
      map (Pair Fmt_ce)
        (case firstTwoLoops w lines of
           Inl e \<Rightarrow> []
         | Inr st2 \<Rightarrow> map fst (filter (reachesSecondary w) (bugEntries lines)))"
proof (cases "firstTwoLoops w lines")
  case (Inl e)
  obtain a st where e: "e = (a, st)" by (cases e)
  define ds where "ds = map snd (gitCalls st)"
  from Inl e have p: "snd (program w lines) = st" by (simp add: program_def loops_def)
  from firstTwoLoops_cI [of w lines] Inl e
  have "gitCalls st = map (Pair Fmt_cI) ds"
    unfolding ds_def by (intro only_cI) (simp add: endState_def)
  with p have "gitCalls (snd (program w lines)) = map (Pair Fmt_cI) ds @ map (Pair Fmt_ce) []"
    by simp
  then show ?thesis unfolding Inl sum.case by (rule exI)
next
  case (Inr st2)
  then obtain st where l: "loops w lines = Inr st" and
    3: "forEach (authorStep w) (bugsMissingReview st2) (st2\<lparr>bugs := []\<rparr>) = Inr st"
    by (rule thirdLoop_runs)
  from 3 have "gitCalls st = gitCalls (st2\<lparr>bugs := []\<rparr>) @
      concat (map (\<lambda>b. [(Fmt_ce, fst b)]) (bugsMissingReview st2))"
    by (rule forEach_collect [where g = gitCalls, rotated]) (rule authorStep_gitCalls)
  then have g: "gitCalls st = gitCalls st2 @
      map (Pair Fmt_ce) (map fst (filter (reachesSecondary w) (bugEntries lines)))"
    by (simp add: concat_map_singleton firstTwoLoops_pending(1) [OF Inr] comp_def)
  define ds where "ds = map snd (gitCalls st2)"
  from firstTwoLoops_cI [of w lines] Inr
  have c: "gitCalls st2 = map (Pair Fmt_cI) ds"
    unfolding ds_def by (intro only_cI) (simp add: endState_def)
  from l have "gitCalls (snd (program w lines)) = gitCalls st"
    by (simp add: program_def finish_def)
  with g c have "gitCalls (snd (program w lines)) = map (Pair Fmt_cI) ds @
      map (Pair Fmt_ce) (map fst (filter (reachesSecondary w) (bugEntries lines)))"
    by simp
  then show ?thesis unfolding Inr sum.case by (rule exI)
qed

theorem lookup_order_witness:
  "(\<exists>ds. gitCalls (snd (program example_world example_log_secondary)) =
      map (Pair Fmt_cI) ds @ map (Pair Fmt_ce) [''aaa'', ''bbb'', ''aaa'', ''aaa'']) \<and>
   isl (firstTwoLoops example_world example_log_aborted) \<and>
   (\<exists>ds. gitCalls (snd (program example_world example_log_aborted)) =
      map (Pair Fmt_cI) ds @ map (Pair Fmt_ce) [])"
proof -
  have a: "filter (reachesSecondary example_world) (bugEntries example_log_secondary) =
      example_pending"
    by code_simp
  have b: "map fst example_pending = [''aaa'', ''bbb'', ''aaa'', ''aaa'']"
    by code_simp
  have c: "isl (firstTwoLoops example_world example_log_aborted)"
    by code_simp
  then obtain e where e: "firstTwoLoops example_world example_log_aborted = Inl e"
    by (cases "firstTwoLoops example_world example_log_aborted") simp_all
  from lookup_order [of example_world example_log_secondary] example_secondary_run a b
  have 1: "\<exists>ds. gitCalls (snd (program example_world example_log_secondary)) =
      map (Pair Fmt_cI) ds @ map (Pair Fmt_ce) [''aaa'', ''bbb'', ''aaa'', ''aaa'']"
    by simp
  from lookup_order [of example_world example_log_aborted] e
  have 2: "\<exists>ds. gitCalls (snd (program example_world example_log_aborted)) =
      map (Pair Fmt_cI) ds @ map (Pair Fmt_ce) []"
    by simp
  from 1 c 2 show ?thesis by blast
qed

section \<open>The end of the script\<close>

subsection \<open>The numbers of the report\<close>

declare digits.simps [simp del]

lemma digit_chars: "\<forall>k\<in>set [0..<10::nat]. isdigit (char_of (48 + k)) \<and> of_char (char_of (48 + k)) = 48 + k"
  by code_simp

lemma digit_char:
  assumes "k < (10::nat)"
  shows "isdigit (char_of (48 + k))" and "of_char (char_of (48 + k)) = 48 + k"
proof -
  from assms have "k \<in> set [0..<10]" by simp
  with digit_chars show "isdigit (char_of (48 + k))" and "of_char (char_of (48 + k)) = 48 + k"
    by blast+
qed

lemma decimal_value_snoc:
  "decimal_value (s @ [c]) = 10 * decimal_value s + (int (of_char c) - 48)"
  by (simp add: decimal_value_def)

lemma digits_decimal:
  "digits n \<noteq> [] \<and> (\<forall>c\<in>set (digits n). isdigit c) \<and> decimal_value (digits n) = int n"
proof (induction n rule: digits.induct)
  case (1 n)
  show ?case
  proof (cases "n < 10")
    case True
    then have d: "digits n = [char_of (48 + n)]" by (simp add: digits.simps [of n])
    from True digit_char [of n] show ?thesis
      unfolding d by (simp add: decimal_value_def)
  next
    case False
    then have d: "digits n = digits (n div 10) @ [char_of (48 + n mod 10)]"
      by (simp add: digits.simps [of n])
    have m: "n mod 10 < 10" by simp
    from False "1" have ih: "digits (n div 10) \<noteq> []"
      "\<forall>c\<in>set (digits (n div 10)). isdigit c"
      "decimal_value (digits (n div 10)) = int (n div 10)"
      by simp_all
    have "decimal_value (digits n) = 10 * int (n div 10) + int (n mod 10)"
      unfolding d decimal_value_snoc ih(3) digit_char(2) [OF m] by simp
    also have "\<dots> = int n" by (simp add: zdiv_int zmod_int)
    finally have v: "decimal_value (digits n) = int n" .
    from ih digit_char(1) [OF m] v show ?thesis unfolding d by simp
  qed
qed

lemma str_int_decimal:
  "0 \<le> i \<Longrightarrow> str_int i \<noteq> [] \<and> (\<forall>c\<in>set (str_int i). isdigit c) \<and> decimal_value (str_int i) = i"
  using digits_decimal [of "nat i"] by (simp add: str_int_def)

lemma classifyStep_nonneg: "countersNonneg s \<Longrightarrow> countersNonneg (endState (classifyStep w raw s))"
  by (auto simp: step_defs countersNonneg_def split: option.splits if_splits)

lemma reviewStep_nonneg: "countersNonneg s \<Longrightarrow> countersNonneg (endState (reviewStep w b s))"
  by (auto simp: step_defs countersNonneg_def split: option.splits if_splits prod.splits)

lemma authorStep_nonneg: "countersNonneg s \<Longrightarrow> countersNonneg (endState (authorStep w b s))"
  by (auto simp: step_defs countersNonneg_def split: option.splits if_splits prod.splits)

lemma loops_nonneg:
  assumes "loops w lines = Inr st"
  shows "countersNonneg st"
proof -
  from assms obtain s1 s2 where
    1: "forEach (classifyStep w) lines initial = Inr s1" and
    2: "forEach (reviewStep w) (bugs s1) s1 = Inr s2" and
    3: "forEach (authorStep w) (bugsMissingReview s2) (s2\<lparr>bugs := []\<rparr>) = Inr st"
    by (rule loops_cases)
  have "countersNonneg (endState (forEach (classifyStep w) lines initial))"
    by (rule forEach_keeps [where I = countersNonneg])
       (simp_all add: classifyStep_nonneg, simp add: initial_def countersNonneg_def)
  with 1 have "countersNonneg s1" by (simp add: endState_def)
  then have "countersNonneg (endState (forEach (reviewStep w) (bugs s1) s1))"
    by (rule forEach_keeps [where I = countersNonneg, rotated]) (rule reviewStep_nonneg)
  with 2 have "countersNonneg (s2\<lparr>bugs := []\<rparr>)" by (simp add: endState_def countersNonneg_def)
  then have "countersNonneg (endState (forEach (authorStep w) (bugsMissingReview s2)
                                 (s2\<lparr>bugs := []\<rparr>)))"
    by (rule forEach_keeps [where I = countersNonneg, rotated]) (rule authorStep_nonneg)
  with 3 show ?thesis by (simp add: endState_def)
qed

text \<open>
  C1. When the three loops have run to their end, leaving the state \<open>st\<close>, the script
  ends in one of two ways. If \<open>numUnknownMissing\<close> is positive, the exit status is 255,
  which is not zero. Otherwise the script runs off its end with status 0, and its
  standard output is exactly the ten lines of the report: each label of the source
  followed by its counter, with the two empty lines, and the closing line with the
  number of years. Every number of the report is printed as a nonempty string of
  decimal digits that denotes it.
\<close>

theorem final_exit_status:
  "loops w lines = Inr st \<Longrightarrow>
     (if numUnknownMissing st > 0
      then exitStatus (fst (program w lines)) = 255
      else fst (program w lines) = None \<and> exitStatus (fst (program w lines)) = 0 \<and>
           stdout (snd (program w lines)) =
             ''Patches with WebIDL peer review: '' @ str_int (numHasPeer st) @ [nl] @
             ''Patches missing WebIDL peer review, known issue: '' @
                str_int (numKnownMissing st) @ [nl] @
             ''Patches missing WebIDL peer review, but authored by peer: '' @
                str_int (numPeerAuthored st) @ [nl] @
             ''Old patches missing WebIDL peer review: '' @ str_int (numOldMissing st) @ [nl] @
             ''Old patches without parsable reviewer strings: '' @
                str_int (numOldUnparsableReviewers st) @ [nl] @
             ''Old patches without reviewer strings: '' @
                str_int (numOldReviewerless st) @ [nl] @
             [nl] @
             ''Patches that are backouts: '' @ str_int (numReverts st) @ [nl] @
             ''Old unrecognized summaries: '' @ str_int (numOldUnrecognized st) @ [nl] @
             [nl] @
             ''(Old means more than '' @ str_int 3 @ '' years old.)'' @ [nl]) \<and>
     (\<forall>n\<in>{numHasPeer st, numKnownMissing st, numPeerAuthored st, numOldMissing st,
            numOldUnparsableReviewers st, numOldReviewerless st, numReverts st,
            numOldUnrecognized st, 3}.
        str_int n \<noteq> [] \<and> (\<forall>c\<in>set (str_int n). isdigit c) \<and> decimal_value (str_int n) = n)"
proof -
  assume l: "loops w lines = Inr st"
  from loops_nonneg [OF l] have "\<forall>n\<in>{numHasPeer st, numKnownMissing st, numPeerAuthored st,
      numOldMissing st, numOldUnparsableReviewers st, numOldReviewerless st, numReverts st,
      numOldUnrecognized st, 3}. 0 \<le> n"
    by (simp add: countersNonneg_def)
  then have "\<forall>n\<in>{numHasPeer st, numKnownMissing st, numPeerAuthored st, numOldMissing st,
            numOldUnparsableReviewers st, numOldReviewerless st, numReverts st,
            numOldUnrecognized st, 3}.
        str_int n \<noteq> [] \<and> (\<forall>c\<in>set (str_int n). isdigit c) \<and> decimal_value (str_int n) = n"
    using str_int_decimal by blast
  moreover from l have "if numUnknownMissing st > 0
      then exitStatus (fst (program w lines)) = 255
      else fst (program w lines) = None \<and> exitStatus (fst (program w lines)) = 0 \<and>
           stdout (snd (program w lines)) = report st"
    by (simp add: program_def finish_def loops_stdout)
  ultimately show ?thesis unfolding report_def numOldYears_def by simp
qed

theorem final_exit_status_witness:
  "loops example_world example_log_violation =
     Inr (initial\<lparr>bugsMissingReview := [(''aaa'', ''7'', ''aaa Bug 7 - y r=foo'')],
                  numUnknownMissing := 1,
                  stderr := ''MISSING WebIDL review for bug 7: aaa Bug 7 - y r=foo'',
                  gitCalls := [(Fmt_cI, ''aaa''), (Fmt_ce, ''aaa'')]\<rparr>) \<and>
   exitStatus (fst (program example_world example_log_violation)) = 255 \<and>
   loops example_world example_log_clean =
     Inr (initial\<lparr>numReverts := 1, numHasPeer := 1, numPeerAuthored := 1,
                  gitCalls := [(Fmt_cI, ''aaa'')]\<rparr>) \<and>
   fst (program example_world example_log_clean) = None \<and>
   exitStatus (fst (program example_world example_log_clean)) = 0 \<and>
   stdout (snd (program example_world example_log_clean)) =
     ''Patches with WebIDL peer review: 1'' @ [nl] @
     ''Patches missing WebIDL peer review, known issue: 0'' @ [nl] @
     ''Patches missing WebIDL peer review, but authored by peer: 1'' @ [nl] @
     ''Old patches missing WebIDL peer review: 0'' @ [nl] @
     ''Old patches without parsable reviewer strings: 0'' @ [nl] @
     ''Old patches without reviewer strings: 0'' @ [nl] @
     [nl] @
     ''Patches that are backouts: 1'' @ [nl] @
     ''Old unrecognized summaries: 0'' @ [nl] @
     [nl] @
     ''(Old means more than 3 years old.)'' @ [nl] \<and>
   decimal_value (str_int 1) = 1"
proof -
  have n: "str_int 0 = ''0''" "str_int 1 = ''1''" "str_int 3 = ''3''"
    by code_simp+
  from example_violation_run example_clean_run
    final_exit_status [OF example_violation_run] final_exit_status [OF example_clean_run]
  show ?thesis by (simp add: initial_def n)
qed

end
